theory Spec2Isabelle
  imports Complex_Main "HOL-Library.AList"
begin

section \<open>calc\_plans.py: rate matching and billing accumulation\<close>

text \<open>
  A shallow embedding of \<^verbatim>\<open>src/calc_plans.py\<close>: the three dataclasses
  (\<^verbatim>\<open>RateCondition\<close>, \<^verbatim>\<open>PlanRate\<close>, \<^verbatim>\<open>PricePlan\<close>), the four configured
  price plans with their predicates, and the per-meter loop that accumulates the daily
  total and annotates every row with a rate name and a cost for every plan.

  The two libraries the program computes with are modelled as far as the program uses
  them: Python's \<^verbatim>\<open>decimal.Decimal\<close> under the default context (28 significant digits,
  rounding half to even) and \<^verbatim>\<open>arrow.Arrow\<close> timestamps. Reading and writing the CSV
  file are outside the embedding.
\<close>

subsection \<open>Exceptions\<close>

datatype error =
    AttributeError      \<comment> \<open>attribute access on \<^verbatim>\<open>None\<close>\<close>
  | IndexError          \<comment> \<open>\<^verbatim>\<open>xs[0]\<close> on an empty list\<close>
  | DivisionByZero      \<comment> \<open>\<^verbatim>\<open>x / Decimal(0)\<close>\<close>
  | DivisionUndefined   \<comment> \<open>\<^verbatim>\<open>Decimal(0) / Decimal(0)\<close>\<close>
  | Overflow            \<comment> \<open>\<^verbatim>\<open>decimal.Overflow\<close>: a result above \<^verbatim>\<open>Emax\<close>\<close>
  | ValueError          \<comment> \<open>\<^verbatim>\<open>datetime.replace\<close> with year 10000\<close>
  | OverflowError       \<comment> \<open>a \<^verbatim>\<open>datetime\<close> moved past 12/31/9999\<close>

text \<open>A statement after one that raised is not executed.\<close>

definition and_then :: "error + 'a \<Rightarrow> ('a \<Rightarrow> error + 'b) \<Rightarrow> error + 'b" where
  "and_then x f = (case x of Inl e \<Rightarrow> Inl e | Inr v \<Rightarrow> f v)"

subsection \<open>decimal.Decimal, default context\<close>

text \<open>
  A finite \<^verbatim>\<open>Decimal\<close> is a signed coefficient and an exponent: \<^verbatim>\<open>Decimal('6.611')\<close> is
  \<open>Decimal 6611 (-3)\<close>, \<^verbatim>\<open>Decimal('0.0')\<close> is \<open>Decimal 0 (-1)\<close>. Constructing a
  \<^verbatim>\<open>Decimal\<close> from a string or an int is exact whatever the number of digits; every
  arithmetic result goes through \<open>dec_fix\<close>, which rounds it to the precision and the
  exponent range of the context and raises \<^verbatim>\<open>Overflow\<close> above the range (of the signals of
  the default context only \<^verbatim>\<open>InvalidOperation\<close>, \<^verbatim>\<open>DivisionByZero\<close> and \<^verbatim>\<open>Overflow\<close>
  are trapped). Not modelled: NaN and infinities, and the sign of a zero.
\<close>

datatype decimal = Decimal (coeff: int) (expo: int)

definition prec :: nat where
  "prec = 28"

definition Emax :: int where
  "Emax = 999999"

definition Emin :: int where
  "Emin = - 999999"

text \<open>\<^verbatim>\<open>Context.Etiny()\<close> and \<^verbatim>\<open>Context.Etop()\<close>.\<close>

definition Etiny :: int where
  "Etiny = Emin - int prec + 1"

definition Etop :: int where
  "Etop = Emax - int prec + 1"

text \<open>\<^verbatim>\<open>len(str(n))\<close> for a non-negative int \<open>n\<close>.\<close>

function ndigits :: "int \<Rightarrow> nat" where
  "ndigits n = (if n < 10 then 1 else Suc (ndigits (n div 10)))"
  by pat_completeness auto
termination
  by (relation "measure nat") auto

declare ndigits.simps [simp del]

text \<open>
  Dropping the last \<open>k\<close> digits of \<open>n\<close> under \<^verbatim>\<open>ROUND_HALF_EVEN\<close>: up when the
  dropped digits are more than half a unit, or exactly half with an odd digit before them.
\<close>

definition round_half_even :: "int \<Rightarrow> nat \<Rightarrow> int" where
  "round_half_even n k =
     (let q = n div 10 ^ k; r = n mod 10 ^ k
      in if 10 ^ k < 2 * r \<or> (2 * r = 10 ^ k \<and> odd q) then q + 1 else q)"

text \<open>
  \<^verbatim>\<open>Decimal._fix\<close>. A zero keeps its exponent, clamped into the range from \<open>Etiny\<close> to
  \<open>Emax\<close>. Otherwise \<open>exp_min\<close> is the least exponent the result may have: the one that
  leaves \<open>prec\<close> digits, or \<open>Etiny\<close> if that is larger; above \<open>Etop\<close> it is an overflow.
  A coefficient that reaches below \<open>exp_min\<close> is rounded there; when rounding up carries
  into one more digit, the last digit is dropped again, which may overflow in turn.
\<close>

definition dec_fix :: "decimal \<Rightarrow> error + decimal" where
  "dec_fix d =
     (if coeff d = 0 then Inr (Decimal 0 (min (max (expo d) Etiny) Emax))
      else
        (let n = \<bar>coeff d\<bar>;
             exp_min = int (ndigits n) + expo d - int prec
         in if Etop < exp_min then Inl Overflow
            else
              (let exp_min = max exp_min Etiny
               in if expo d < exp_min then
                    (let q = round_half_even n (nat (exp_min - expo d));
                         q' = (if prec < ndigits q then q div 10 else q);
                         exp_min = (if prec < ndigits q then exp_min + 1 else exp_min)
                     in if Etop < exp_min then Inl Overflow
                        else Inr (Decimal (sgn (coeff d) * q') exp_min))
                  else Inr d)))"

text \<open>The exact sum and product, before the context rounds them.\<close>

definition aligned_sum :: "decimal \<Rightarrow> decimal \<Rightarrow> decimal" where
  "aligned_sum a b =
     (let e = min (expo a) (expo b)
      in Decimal (coeff a * 10 ^ nat (expo a - e) + coeff b * 10 ^ nat (expo b - e)) e)"

definition product :: "decimal \<Rightarrow> decimal \<Rightarrow> decimal" where
  "product a b = Decimal (coeff a * coeff b) (expo a + expo b)"

text \<open>\<^verbatim>\<open>a + b\<close> and \<^verbatim>\<open>a * b\<close>.\<close>

definition dec_add :: "decimal \<Rightarrow> decimal \<Rightarrow> error + decimal" where
  "dec_add a b = dec_fix (aligned_sum a b)"

definition dec_mul :: "decimal \<Rightarrow> decimal \<Rightarrow> error + decimal" where
  "dec_mul a b = dec_fix (product a b)"

text \<open>
  The loop of \<^verbatim>\<open>Decimal.__truediv__\<close> that, after an exact division, removes trailing
  zeros of the quotient while the exponent is below the ideal one.
\<close>

function strip_zeros :: "int \<Rightarrow> int \<Rightarrow> int \<Rightarrow> int \<times> int" where
  "strip_zeros q e ideal =
     (if e < ideal \<and> q mod 10 = 0 then strip_zeros (q div 10) (e + 1) ideal else (q, e))"
  by pat_completeness auto
termination
  by (relation "measure (\<lambda>(q, e, ideal). nat (ideal - e))") auto

declare strip_zeros.simps [simp del]

text \<open>
  \<^verbatim>\<open>a / b\<close>: the dividend is scaled so that the integer quotient has \<open>prec + 1\<close> or
  \<open>prec + 2\<close> digits; a remainder makes the result inexact (the quotient is then kept off
  a rounding tie), no remainder makes it exact; \<open>dec_fix\<close> rounds the result.
\<close>

definition dec_div :: "decimal \<Rightarrow> decimal \<Rightarrow> error + decimal" where
  "dec_div a b =
     (if coeff b = 0 then (if coeff a = 0 then Inl DivisionUndefined else Inl DivisionByZero)
      else if coeff a = 0 then dec_fix (Decimal 0 (expo a - expo b))
      else
        (let x = \<bar>coeff a\<bar>; y = \<bar>coeff b\<bar>;
             shift = int (ndigits y) - int (ndigits x) + int prec + 1;
             e = expo a - expo b - shift;
             num = (if 0 \<le> shift then x * 10 ^ nat shift else x);
             den = (if 0 \<le> shift then y else y * 10 ^ nat (- shift));
             q = num div den; r = num mod den;
             qe = (if r \<noteq> 0 then (if q mod 5 = 0 then q + 1 else q, e)
                   else strip_zeros q e (expo a - expo b))
         in dec_fix (Decimal (sgn (coeff a) * sgn (coeff b) * fst qe) (snd qe))))"

text \<open>
  Comparison of two finite decimals (\<^verbatim>\<open>Decimal._cmp\<close>): the coefficients are padded to a
  common exponent and compared as integers. An int operand is converted exactly:
  \<^verbatim>\<open>d <= 17\<close> compares with \<open>Decimal 17 0\<close>.
\<close>

definition dec_le :: "decimal \<Rightarrow> decimal \<Rightarrow> bool" where
  "dec_le a b =
     (let e = min (expo a) (expo b)
      in coeff a * 10 ^ nat (expo a - e) \<le> coeff b * 10 ^ nat (expo b - e))"

definition dec_gt :: "decimal \<Rightarrow> decimal \<Rightarrow> bool" where
  "dec_gt a b =
     (let e = min (expo a) (expo b)
      in coeff a * 10 ^ nat (expo a - e) > coeff b * 10 ^ nat (expo b - e))"

text \<open>
  The rational number a decimal denotes. The program never computes it; the theorems
  use it to say what exact arithmetic would give.
\<close>

definition dec_val :: "decimal \<Rightarrow> rat" where
  "dec_val d = of_int (coeff d) * 10 powi expo d"

text \<open>
  A decimal the context leaves as it is: at most \<open>prec\<close> digits and an exponent from
  \<open>Etiny\<close> to \<open>Etop\<close>.
\<close>

definition fits :: "decimal \<Rightarrow> bool" where
  "fits d = (\<bar>coeff d\<bar> < 10 ^ prec \<and> Etiny \<le> expo d \<and> expo d \<le> Etop)"

subsection \<open>arrow.Arrow timestamps\<close>

text \<open>
  A timestamp is its wall-clock fields in the one time zone the program parses every row
  in (\<^verbatim>\<open>America/Detroit\<close>). The UTC offset is taken to be the standard offset of the
  zone, 5 hours behind UTC, throughout: the daylight-saving hour is not modelled. The
  fields are Python ints; in a timestamp the parser builds the year is in 1..9999, the
  month and the day are those of a calendar date (\<open>valid_date\<close>) and the time fields are
  in their ranges (\<open>valid_time\<close>).
\<close>

record Arrow =
  year :: int
  month :: int
  day :: int
  hour :: int
  minute :: int
  second :: int
  microsecond :: int

definition valid_time :: "Arrow \<Rightarrow> bool" where
  "valid_time t =
     (0 \<le> hour t \<and> hour t < 24 \<and> 0 \<le> minute t \<and> minute t < 60 \<and>
      0 \<le> second t \<and> second t < 60 \<and> 0 \<le> microsecond t \<and> microsecond t < 1000000)"

definition valid_date :: "Arrow \<Rightarrow> bool" where
  "valid_date t = (1 \<le> month t \<and> month t \<le> 12 \<and> 1 \<le> day t \<and> day t \<le> 31)"

definition is_leap :: "int \<Rightarrow> bool" where
  "is_leap y = (y mod 4 = 0 \<and> (y mod 100 \<noteq> 0 \<or> y mod 400 = 0))"

definition days_before_year :: "int \<Rightarrow> int" where
  "days_before_year y = (y - 1) * 365 + (y - 1) div 4 - (y - 1) div 100 + (y - 1) div 400"

definition days_in_month :: "int \<Rightarrow> int \<Rightarrow> int" where
  "days_in_month y m =
     (if m = 2 \<and> is_leap y then 29
      else [31, 28, 31, 30, 31, 30, 31, 31, 30, 31, 30, 31] ! nat (m - 1))"

definition days_before_month :: "int \<Rightarrow> int \<Rightarrow> int" where
  "days_before_month y m =
     [0, 31, 59, 90, 120, 151, 181, 212, 243, 273, 304, 334] ! nat (m - 1)
       + (if 2 < m \<and> is_leap y then 1 else 0)"

definition ymd2ord :: "int \<Rightarrow> int \<Rightarrow> int \<Rightarrow> int" where
  "ymd2ord y m d = days_before_year y + days_before_month y m + d"

text \<open>\<^verbatim>\<open>weekday()\<close>: Monday is 0, Sunday is 6.\<close>

definition weekday :: "Arrow \<Rightarrow> int" where
  "weekday t = (ymd2ord (year t) (month t) (day t) + 6) mod 7"

text \<open>The position of a timestamp on the wall clock, in microseconds.\<close>

definition wall_us :: "Arrow \<Rightarrow> int" where
  "wall_us t =
     (((ymd2ord (year t) (month t) (day t) * 24 + hour t) * 60 + minute t) * 60 + second t)
       * 1000000 + microsecond t"

text \<open>
  \<^verbatim>\<open>float_timestamp\<close> is \<^verbatim>\<open>datetime.timestamp()\<close>: the microseconds since the epoch
  (1970-01-01 00:00 UTC, ordinal day 719163) divided by \<^verbatim>\<open>10**6\<close>, as a binary64 float.
  The division of two ints is correctly rounded, ties to even. A float of magnitude at
  least \<^verbatim>\<open>10**-6\<close> is a multiple of \<^verbatim>\<open>2**-72\<close>; the model holds the float multiplied by
  \<^verbatim>\<open>2**72\<close>, an integer.

  \<open>log2floor n d\<close> is the number of times \<open>d\<close> can be doubled without exceeding \<open>n\<close>;
  \<open>div_half_even a b\<close> is the integer nearest to \<open>a / b\<close>, the even one of two. For
  \<open>us\<close> microseconds, \<open>j - 20\<close> is the binary exponent of the quotient and \<open>m\<close> its
  53-bit significand.
\<close>

definition posix_us :: "Arrow \<Rightarrow> int" where
  "posix_us t = wall_us t - 719163 * 86400 * 1000000 + 5 * 3600 * 1000000"

function log2floor :: "int \<Rightarrow> int \<Rightarrow> nat" where
  "log2floor n d = (if d \<le> 0 \<or> n < 2 * d then 0 else Suc (log2floor n (2 * d)))"
  by pat_completeness auto
termination
  by (relation "measure (\<lambda>(n, d). nat (n - d))") auto

declare log2floor.simps [simp del]

definition div_half_even :: "int \<Rightarrow> int \<Rightarrow> int" where
  "div_half_even a b =
     (let q = a div b; r = a mod b
      in if b < 2 * r \<or> (2 * r = b \<and> odd q) then q + 1 else q)"

definition float_seconds :: "int \<Rightarrow> int" where
  "float_seconds us =
     (if us = 0 then 0
      else (let n = \<bar>us\<bar> * 2 ^ 20;
                j = log2floor n 1000000;
                m = div_half_even (n * 2 ^ 52) (1000000 * 2 ^ j)
            in sgn us * (m * 2 ^ j)))"

definition float_timestamp :: "Arrow \<Rightarrow> int" where
  "float_timestamp t = float_seconds (posix_us t)"

text \<open>\<^verbatim>\<open>t.is_between(lo, hi, bounds='[]')\<close> compares the three float timestamps.\<close>

definition is_between :: "Arrow \<Rightarrow> Arrow \<Rightarrow> Arrow \<Rightarrow> bool" where
  "is_between t lo hi =
     (float_timestamp lo \<le> float_timestamp t \<and> float_timestamp t \<le> float_timestamp hi)"

text \<open>
  \<^verbatim>\<open>floor(frame)\<close> and \<^verbatim>\<open>ceil(frame)\<close> are the two ends of \<^verbatim>\<open>span(frame)\<close>, which computes
  both (arrow 1.x): the floor is the timestamp with the smaller fields zeroed, the ceiling
  is the floor shifted by one frame and then back by one microsecond. A shift adds to the
  \<^verbatim>\<open>datetime\<close>, which raises \<^verbatim>\<open>OverflowError\<close> past 12/31/9999, and then asks
  \<^verbatim>\<open>dateutil.tz.datetime_exists\<close> whether the result exists in the zone, which converts it
  to UTC and raises \<^verbatim>\<open>OverflowError\<close> in turn when the result is five hours or less before
  the end of 12/31/9999. So \<^verbatim>\<open>span('day')\<close> raises on 12/31/9999, and \<^verbatim>\<open>span('hour')\<close>
  raises on 12/31/9999 from 6 PM on.

  \<^verbatim>\<open>replace(month=m, day=d)\<close> and \<^verbatim>\<open>replace(hour=h)\<close> set the named fields and keep every
  other field, the time of day included. \<^verbatim>\<open>shift(years=+1)\<close> moves the year and clamps
  the day to the length of the month; year 10000 raises \<^verbatim>\<open>ValueError\<close>. \<^verbatim>\<open>clone()\<close> is the
  identity on values.
\<close>

definition span_day :: "Arrow \<Rightarrow> error + Arrow \<times> Arrow" where
  "span_day t =
     (if year t = 9999 \<and> month t = 12 \<and> day t = 31 then Inl OverflowError
      else Inr (t\<lparr>hour := 0, minute := 0, second := 0, microsecond := 0\<rparr>,
                t\<lparr>hour := 23, minute := 59, second := 59, microsecond := 999999\<rparr>))"

definition span_hour :: "Arrow \<Rightarrow> error + Arrow \<times> Arrow" where
  "span_hour t =
     (if year t = 9999 \<and> month t = 12 \<and> day t = 31 \<and> 18 \<le> hour t then Inl OverflowError
      else Inr (t\<lparr>minute := 0, second := 0, microsecond := 0\<rparr>,
                t\<lparr>minute := 59, second := 59, microsecond := 999999\<rparr>))"

definition floor_day :: "Arrow \<Rightarrow> error + Arrow" where
  "floor_day t = and_then (span_day t) (\<lambda>s. Inr (fst s))"

definition ceil_day :: "Arrow \<Rightarrow> error + Arrow" where
  "ceil_day t = and_then (span_day t) (\<lambda>s. Inr (snd s))"

definition ceil_hour :: "Arrow \<Rightarrow> error + Arrow" where
  "ceil_hour t = and_then (span_hour t) (\<lambda>s. Inr (snd s))"

definition replace_month_day :: "Arrow \<Rightarrow> int \<Rightarrow> int \<Rightarrow> Arrow" where
  "replace_month_day t m d = t\<lparr>month := m, day := d\<rparr>"

definition replace_hour :: "Arrow \<Rightarrow> int \<Rightarrow> Arrow" where
  "replace_hour t h = t\<lparr>hour := h\<rparr>"

definition shift_years_1 :: "Arrow \<Rightarrow> error + Arrow" where
  "shift_years_1 t =
     (if 9999 < year t + 1 then Inl ValueError
      else Inr (t\<lparr>year := year t + 1,
                  day := min (days_in_month (year t + 1) (month t)) (day t)\<rparr>))"

text \<open>\<^verbatim>\<open>date()\<close> and the order of dates.\<close>

type_synonym date = "int \<times> int \<times> int"

definition date :: "Arrow \<Rightarrow> date" where
  "date t = (year t, month t, day t)"

fun date_gt :: "date \<Rightarrow> date \<Rightarrow> bool" where
  "date_gt (y, m, d) (y', m', d') =
     (y' < y \<or> (y = y' \<and> (m' < m \<or> (m = m' \<and> d' < d))))"

subsection \<open>Rows\<close>

text \<open>
  A row is the dictionary the CSV reader returns, with the keys the program reads given
  the type of what the program reads there: \<^verbatim>\<open>row['Timestamp']\<close> is the parsed timestamp,
  \<open>Hourly_Total\<close> is the value of \<^verbatim>\<open>Decimal(row['Hourly Total'])\<close>, \<open>Daily_Cumulative\<close>
  is \<^verbatim>\<open>row['Daily Cumulative']\<close>, which the loop assigns before anything reads it. The
  keys \<^verbatim>\<open>'<plan> Rate'\<close> and \<^verbatim>\<open>'<plan> Cost'\<close> the loop adds are the association list
  \<open>annotations\<close>, in insertion order.
\<close>

datatype cell = Str string | Dec decimal

record Row =
  Timestamp :: Arrow
  Hourly_Total :: decimal
  Daily_Cumulative :: decimal
  annotations :: "(string \<times> cell) list"

text \<open>
  The row the reading loop builds from a CSV record: the timestamp parsed from the day and
  the hour of day (format \<^verbatim>\<open>MM/DD/YYYY h:mm A\<close>, so seconds and microseconds are 0) and
  the hourly total. \<^verbatim>\<open>'Daily Cumulative'\<close> is not assigned yet; the record holds a
  placeholder there.
\<close>

definition csv_row :: "int \<Rightarrow> int \<Rightarrow> int \<Rightarrow> int \<Rightarrow> int \<Rightarrow> decimal \<Rightarrow> Row" where
  "csv_row y m d h mi usage =
     \<lparr>Timestamp = \<lparr>year = y, month = m, day = d, hour = h, minute = mi, second = 0,
                     microsecond = 0\<rparr>,
      Hourly_Total = usage, Daily_Cumulative = Decimal 0 0, annotations = []\<rparr>"

text \<open>What the program prints: one constructor per \<^verbatim>\<open>print\<close> call.\<close>

datatype diagnostic =
    No_match_for string string       \<comment> \<open>stdout: \<^verbatim>\<open>No match for {key}: {condition}\<close>\<close>
  | Could_not_find_rate string Row   \<comment> \<open>stderr: \<^verbatim>\<open>{name}: Could not find rate for {row}!\<close>\<close>

subsection \<open>The dataclasses\<close>

record RateCondition =
  key :: string
  condition :: string
  match :: "Row \<Rightarrow> error + bool"

record PlanRate =
  name :: string
  distribution :: decimal
  capacity :: decimal
  non_capacity :: decimal
  conditions :: "RateCondition list"

record PricePlan =
  name :: string
  rates :: "PlanRate list"
  service_charge :: decimal

text \<open>
  The constructor \<^verbatim>\<open>@dataclass\<close> generates for \<^verbatim>\<open>PricePlan\<close> stores its three arguments.
  The class has no \<^verbatim>\<open>__post_init__\<close>.
\<close>

definition PricePlan_init :: "string \<Rightarrow> PlanRate list \<Rightarrow> decimal \<Rightarrow> error + PricePlan" where
  "PricePlan_init n rs sc = Inr \<lparr>PricePlan.name = n, rates = rs, service_charge = sc\<rparr>"

text \<open>
  A predicate either returns a bool or raises. A method returns what it printed beside
  its result: a line printed before an exception is printed all the same.

  \<^verbatim>\<open>RateCondition.is_rate\<close>: the value and what it prints.
\<close>

definition RateCondition_is_rate ::
  "RateCondition \<Rightarrow> Row \<Rightarrow> bool \<Rightarrow> (error + bool) \<times> diagnostic list" where
  "RateCondition_is_rate c row debug =
     (case match c row of
        Inl e \<Rightarrow> (Inl e, [])
      | Inr val \<Rightarrow>
          (Inr val, if debug \<and> \<not> val then [No_match_for (key c) (condition c)] else []))"

text \<open>\<^verbatim>\<open>PlanRate.is_rate\<close>: the loop over the conditions returns at the first that fails.\<close>

fun conditions_loop ::
  "RateCondition list \<Rightarrow> Row \<Rightarrow> bool \<Rightarrow> (error + bool) \<times> diagnostic list" where
  "conditions_loop [] row debug = (Inr True, [])"
| "conditions_loop (c # cs) row debug =
     (case RateCondition_is_rate c row debug of
        (Inl e, out) \<Rightarrow> (Inl e, out)
      | (Inr val, out) \<Rightarrow>
          if \<not> val then (Inr False, out)
          else (let (res, out') = conditions_loop cs row debug in (res, out @ out')))"

definition PlanRate_is_rate ::
  "PlanRate \<Rightarrow> Row \<Rightarrow> bool \<Rightarrow> (error + bool) \<times> diagnostic list" where
  "PlanRate_is_rate r row debug = conditions_loop (conditions r) row debug"

text \<open>
  \<^verbatim>\<open>PlanRate.cost\<close>: the sum of the charges from left to right, the product with the
  hourly total, the quotient by \<^verbatim>\<open>Decimal('100.0')\<close>.
\<close>

definition PlanRate_cost :: "PlanRate \<Rightarrow> Row \<Rightarrow> error + decimal" where
  "PlanRate_cost r row =
     and_then (fst (PlanRate_is_rate r row False)) (\<lambda>is_rate.
       if \<not> is_rate then Inr (Decimal 0 (-1))
       else
         and_then (dec_add (distribution r) (capacity r)) (\<lambda>s.
         and_then (dec_add s (non_capacity r)) (\<lambda>s.
         and_then (dec_mul (Hourly_Total row) s) (\<lambda>p.
         dec_div p (Decimal 1000 (-1))))))"

text \<open>
  \<^verbatim>\<open>PricePlan.match_rate\<close>: the first loop returns the first rate that matches; when
  none does, the stderr line is printed, the second loop evaluates every rate again with
  \<^verbatim>\<open>debug=True\<close>, and the result is \<^verbatim>\<open>None\<close>.
\<close>

fun first_rate :: "PlanRate list \<Rightarrow> Row \<Rightarrow> error + PlanRate option" where
  "first_rate [] row = Inr None"
| "first_rate (r # rs) row =
     and_then (fst (PlanRate_is_rate r row False)) (\<lambda>is_rate.
       if is_rate then Inr (Some r) else first_rate rs row)"

fun debug_rates :: "PlanRate list \<Rightarrow> Row \<Rightarrow> (error + unit) \<times> diagnostic list" where
  "debug_rates [] row = (Inr (), [])"
| "debug_rates (r # rs) row =
     (case PlanRate_is_rate r row True of
        (Inl e, out) \<Rightarrow> (Inl e, out)
      | (Inr _, out) \<Rightarrow> (let (res, out') = debug_rates rs row in (res, out @ out')))"

definition match_rate ::
  "PricePlan \<Rightarrow> Row \<Rightarrow> (error + PlanRate option) \<times> diagnostic list" where
  "match_rate p row =
     (case first_rate (rates p) row of
        Inl e \<Rightarrow> (Inl e, [])
      | Inr (Some r) \<Rightarrow> (Inr (Some r), [])
      | Inr None \<Rightarrow>
          (case debug_rates (rates p) row of
             (Inl e, out) \<Rightarrow> (Inl e, Could_not_find_rate (PricePlan.name p) row # out)
           | (Inr _, out) \<Rightarrow> (Inr None, Could_not_find_rate (PricePlan.name p) row # out)))"

text \<open>\<^verbatim>\<open>PricePlan.cost\<close>.\<close>

definition PricePlan_cost :: "PricePlan \<Rightarrow> Row \<Rightarrow> (error + decimal) \<times> diagnostic list" where
  "PricePlan_cost p row =
     (case match_rate p row of
        (Inl e, out) \<Rightarrow> (Inl e, out)
      | (Inr None, out) \<Rightarrow> (Inr (Decimal 0 (-1)), out)
      | (Inr (Some r), out) \<Rightarrow> (PlanRate_cost r row, out))"

subsection \<open>The configured plans\<close>

text \<open>
  The predicates of the \<^verbatim>\<open>RateCondition\<close>s, one definition for each distinct lambda of
  the source. \<open>hour_window t a b\<close> is the expression every hour predicate is made of:
  \<^verbatim>\<open>t.is_between(t.clone().replace(hour=a), t.clone().replace(hour=b).ceil('hour'), bounds='[]')\<close>;
  \<open>or_else\<close> is \<^verbatim>\<open>or\<close>, which evaluates its right operand only when the left one is
  false.
\<close>

definition or_else :: "error + bool \<Rightarrow> error + bool \<Rightarrow> error + bool" where
  "or_else a b = and_then a (\<lambda>x. if x then Inr True else b)"

definition cumulative_le_17 :: "Row \<Rightarrow> error + bool" where
  "cumulative_le_17 row = Inr (dec_le (Daily_Cumulative row) (Decimal 17 0))"

definition cumulative_gt_17 :: "Row \<Rightarrow> error + bool" where
  "cumulative_gt_17 row = Inr (dec_gt (Daily_Cumulative row) (Decimal 17 0))"

definition day_0601_1031 :: "Row \<Rightarrow> error + bool" where
  "day_0601_1031 row =
     and_then (floor_day (Timestamp row)) (\<lambda>t.
     and_then (ceil_day (replace_month_day (Timestamp row) 10 31)) (\<lambda>hi.
     Inr (is_between t (replace_month_day (Timestamp row) 6 1) hi)))"

definition day_1101_0531 :: "Row \<Rightarrow> error + bool" where
  "day_1101_0531 row =
     and_then (floor_day (Timestamp row)) (\<lambda>t.
     and_then (shift_years_1 (replace_month_day (Timestamp row) 5 31)) (\<lambda>may.
     and_then (ceil_day may) (\<lambda>hi.
     Inr (is_between t (replace_month_day (Timestamp row) 11 1) hi))))"

definition hour_window :: "Arrow \<Rightarrow> int \<Rightarrow> int \<Rightarrow> error + bool" where
  "hour_window t a b =
     and_then (ceil_hour (replace_hour t b)) (\<lambda>hi. Inr (is_between t (replace_hour t a) hi))"

definition hour_19_to_10 :: "Row \<Rightarrow> error + bool" where
  "hour_19_to_10 row =
     or_else (hour_window (Timestamp row) 19 23) (hour_window (Timestamp row) 0 10)"

definition hour_11_to_18 :: "Row \<Rightarrow> error + bool" where
  "hour_11_to_18 row = hour_window (Timestamp row) 11 18"

definition monday_to_friday :: "Row \<Rightarrow> error + bool" where
  "monday_to_friday row =
     Inr (0 \<le> weekday (Timestamp row) \<and> weekday (Timestamp row) \<le> 4)"

definition saturday_to_sunday :: "Row \<Rightarrow> error + bool" where
  "saturday_to_sunday row =
     Inr (5 \<le> weekday (Timestamp row) \<and> weekday (Timestamp row) \<le> 6)"

definition hour_19_to_22_or_7_to_14 :: "Row \<Rightarrow> error + bool" where
  "hour_19_to_22_or_7_to_14 row =
     or_else (hour_window (Timestamp row) 19 22) (hour_window (Timestamp row) 7 14)"

definition hour_15_to_18 :: "Row \<Rightarrow> error + bool" where
  "hour_15_to_18 row = hour_window (Timestamp row) 15 18"

definition hour_23_to_6 :: "Row \<Rightarrow> error + bool" where
  "hour_23_to_6 row =
     or_else (hour_window (Timestamp row) 23 23) (hour_window (Timestamp row) 0 6)"

definition hour_9_to_22 :: "Row \<Rightarrow> error + bool" where
  "hour_9_to_22 row = hour_window (Timestamp row) 9 22"

definition hour_23_to_8 :: "Row \<Rightarrow> error + bool" where
  "hour_23_to_8 row =
     or_else (hour_window (Timestamp row) 23 23) (hour_window (Timestamp row) 0 8)"

text \<open>D1 residential pricing.\<close>

definition First_17kWh :: PlanRate where
  "First_17kWh =
     \<lparr>PlanRate.name = ''First 17kWh'',
      distribution = Decimal 6611 (-3), capacity = Decimal 4500 (-3),
      non_capacity = Decimal 4176 (-3),
      conditions =
        [\<lparr>key = ''Daily Cumulative'', condition = ''<=17'', match = cumulative_le_17\<rparr>]\<rparr>"

definition After_17kWh :: PlanRate where
  "After_17kWh =
     \<lparr>PlanRate.name = ''After 17kWh'',
      distribution = Decimal 6611 (-3), capacity = Decimal 6484 (-3),
      non_capacity = Decimal 4176 (-3),
      conditions =
        [\<lparr>key = ''Daily Cumulative'', condition = ''>17'', match = cumulative_gt_17\<rparr>]\<rparr>"

definition D1 :: PricePlan where
  "D1 = \<lparr>PricePlan.name = ''D1'', rates = [First_17kWh, After_17kWh],
          service_charge = Decimal 750 (-2)\<rparr>"

text \<open>D1.2 Time of Day.\<close>

definition Summer_Off_Peak :: PlanRate where
  "Summer_Off_Peak =
     \<lparr>PlanRate.name = ''Time-of-Day Summer Off-Peak'',
      distribution = Decimal 6611 (-3), capacity = Decimal 1160 (-3),
      non_capacity = Decimal 4261 (-3),
      conditions =
        [\<lparr>key = ''Timestamp'', condition = ''06/01 <= day <= 10/31'', match = day_0601_1031\<rparr>,
         \<lparr>key = ''Timestamp'', condition = ''19:00:00 <= hour <= 10:59:59'',
          match = hour_19_to_10\<rparr>]\<rparr>"

definition Summer_On_Peak :: PlanRate where
  "Summer_On_Peak =
     \<lparr>PlanRate.name = ''Time-of-Day Summer On-Peak'',
      distribution = Decimal 6611 (-3), capacity = Decimal 11841 (-3),
      non_capacity = Decimal 4261 (-3),
      conditions =
        [\<lparr>key = ''Timestamp'', condition = ''06/01 <= day <= 10/31'', match = day_0601_1031\<rparr>,
         \<lparr>key = ''Timestamp'', condition = ''11:00:00 <= hour <= 18:59:59'',
          match = hour_11_to_18\<rparr>]\<rparr>"

definition Winter_Off_Peak :: PlanRate where
  "Winter_Off_Peak =
     \<lparr>PlanRate.name = ''Time-of-Day Winter Off-Peak'',
      distribution = Decimal 6611 (-3), capacity = Decimal 948 (-3),
      non_capacity = Decimal 4261 (-3),
      conditions =
        [\<lparr>key = ''Timestamp'', condition = ''11/01 <= day <= 5/31'', match = day_1101_0531\<rparr>,
         \<lparr>key = ''Timestamp'', condition = ''19:00:00 <= hour <= 10:59:59'',
          match = hour_19_to_10\<rparr>]\<rparr>"

definition Winter_On_Peak :: PlanRate where
  "Winter_On_Peak =
     \<lparr>PlanRate.name = ''Time-of-Day Winter On-Peak'',
      distribution = Decimal 6611 (-3), capacity = Decimal 9341 (-3),
      non_capacity = Decimal 4261 (-3),
      conditions =
        [\<lparr>key = ''Timestamp'', condition = ''11/01 <= day <= 5/31'', match = day_1101_0531\<rparr>,
         \<lparr>key = ''Timestamp'', condition = ''11:00:00 <= hour <= 18:59:59'',
          match = hour_11_to_18\<rparr>]\<rparr>"

definition D1_2 :: PricePlan where
  "D1_2 = \<lparr>PricePlan.name = ''D1.2'',
            rates = [Summer_Off_Peak, Summer_On_Peak, Winter_Off_Peak, Winter_On_Peak],
            service_charge = Decimal 750 (-2)\<rparr>"

text \<open>D1.9 Dynamic Time-of-Day.\<close>

definition Dynamic_Mid_Peak :: PlanRate where
  "Dynamic_Mid_Peak =
     \<lparr>PlanRate.name = ''Dynamic Mid-Peak'',
      distribution = Decimal 6611 (-3), capacity = Decimal 5645 (-3),
      non_capacity = Decimal 3576 (-3),
      conditions =
        [\<lparr>key = ''Timestamp'', condition = ''Monday <= day <= Friday'',
          match = monday_to_friday\<rparr>,
         \<lparr>key = ''Timestamp'',
          condition = ''19:00:00 <= hour <= 22:59:59 or 07:00:00 <= hour <= 14:59:59'',
          match = hour_19_to_22_or_7_to_14\<rparr>]\<rparr>"

definition Dynamic_On_Peak :: PlanRate where
  "Dynamic_On_Peak =
     \<lparr>PlanRate.name = ''Dynamic On-Peak'',
      distribution = Decimal 6611 (-3), capacity = Decimal 13025 (-3),
      non_capacity = Decimal 3576 (-3),
      conditions =
        [\<lparr>key = ''Timestamp'', condition = ''Monday <= day <= Friday'',
          match = monday_to_friday\<rparr>,
         \<lparr>key = ''Timestamp'', condition = ''15:00:00 <= hour <= 18:59:59'',
          match = hour_15_to_18\<rparr>]\<rparr>"

definition Dynamic_Off_Peak_Weekday :: PlanRate where
  "Dynamic_Off_Peak_Weekday =
     \<lparr>PlanRate.name = ''Dynamic Off-Peak Weekday'',
      distribution = Decimal 6611 (-3), capacity = Decimal 1218 (-3),
      non_capacity = Decimal 3576 (-3),
      conditions =
        [\<lparr>key = ''Timestamp'', condition = ''Monday <= day <= Friday'',
          match = monday_to_friday\<rparr>,
         \<lparr>key = ''Timestamp'', condition = ''23:00:00 <= hour <= 06:59:59'',
          match = hour_23_to_6\<rparr>]\<rparr>"

definition Dynamic_Off_Peak_Weekend :: PlanRate where
  "Dynamic_Off_Peak_Weekend =
     \<lparr>PlanRate.name = ''Dynamic Off-Peak Weekend'',
      distribution = Decimal 6611 (-3), capacity = Decimal 1218 (-3),
      non_capacity = Decimal 3576 (-3),
      conditions =
        [\<lparr>key = ''Timestamp'', condition = ''Saturday <= day <= Sunday'',
          match = saturday_to_sunday\<rparr>]\<rparr>"

definition D1_9 :: PricePlan where
  "D1_9 = \<lparr>PricePlan.name = ''D1.9'',
            rates = [Dynamic_Mid_Peak, Dynamic_On_Peak, Dynamic_Off_Peak_Weekday,
                     Dynamic_Off_Peak_Weekend],
            service_charge = Decimal 750 (-2)\<rparr>"

text \<open>D1.8 EV Dedicated Meter.\<close>

definition EV_On_Peak :: PlanRate where
  "EV_On_Peak =
     \<lparr>PlanRate.name = ''EV On-Peak'',
      distribution = Decimal 6611 (-3), capacity = Decimal 9791 (-3),
      non_capacity = Decimal 19720 (-3),
      conditions =
        [\<lparr>key = ''Timestamp'', condition = ''Monday <= day <= Friday'',
          match = monday_to_friday\<rparr>,
         \<lparr>key = ''Timestamp'', condition = ''09:00:00 <= hour <= 22:59:59'',
          match = hour_9_to_22\<rparr>]\<rparr>"

definition EV_Off_Peak_Weekday :: PlanRate where
  "EV_Off_Peak_Weekday =
     \<lparr>PlanRate.name = ''EV Off-Peak Weekday'',
      distribution = Decimal 6611 (-3), capacity = Decimal 2448 (-3),
      non_capacity = Decimal 7889 (-3),
      conditions =
        [\<lparr>key = ''Timestamp'', condition = ''Monday <= day <= Friday'',
          match = monday_to_friday\<rparr>,
         \<lparr>key = ''Timestamp'', condition = ''23:00:00 <= hour <= 08:59:59'',
          match = hour_23_to_8\<rparr>]\<rparr>"

definition EV_Off_Peak_Weekend :: PlanRate where
  "EV_Off_Peak_Weekend =
     \<lparr>PlanRate.name = ''EV Off-Peak Weekend'',
      distribution = Decimal 6611 (-3), capacity = Decimal 2448 (-3),
      non_capacity = Decimal 7889 (-3),
      conditions =
        [\<lparr>key = ''Timestamp'', condition = ''Saturday <= day <= Sunday'',
          match = saturday_to_sunday\<rparr>]\<rparr>"

definition D1_8 :: PricePlan where
  "D1_8 = \<lparr>PricePlan.name = ''D1.8'',
            rates = [EV_On_Peak, EV_Off_Peak_Weekday, EV_Off_Peak_Weekend],
            service_charge = Decimal 195 (-2)\<rparr>"

definition plans :: "PricePlan list" where
  "plans = [D1, D1_2, D1_9, D1_8]"

subsection \<open>The per-meter loop\<close>

text \<open>
  \<open>annotate_plan\<close> is the body of \<^verbatim>\<open>for plan in plans\<close>: the first statement reads
  \<^verbatim>\<open>.name\<close> of what \<^verbatim>\<open>match_rate\<close> returned, the second calls \<^verbatim>\<open>plan.cost\<close> on the row
  that now carries the rate name.
\<close>

definition annotate_plan :: "PricePlan \<Rightarrow> Row \<Rightarrow> (error + Row) \<times> diagnostic list" where
  "annotate_plan p row =
     (case match_rate p row of
        (Inl e, out) \<Rightarrow> (Inl e, out)
      | (Inr None, out) \<Rightarrow> (Inl AttributeError, out)
      | (Inr (Some r), out) \<Rightarrow>
          (let row1 = row\<lparr>annotations :=
                        AList.update (PricePlan.name p @ '' Rate'') (Str (PlanRate.name r))
                          (annotations row)\<rparr>
           in case PricePlan_cost p row1 of
                (Inl e, out') \<Rightarrow> (Inl e, out @ out')
              | (Inr v, out') \<Rightarrow>
                  (Inr (row1\<lparr>annotations :=
                              AList.update (PricePlan.name p @ '' Cost'') (Dec v)
                                (annotations row1)\<rparr>),
                   out @ out')))"

fun annotate :: "PricePlan list \<Rightarrow> Row \<Rightarrow> (error + Row) \<times> diagnostic list" where
  "annotate [] row = (Inr row, [])"
| "annotate (p # ps) row =
     (case annotate_plan p row of
        (Inl e, out) \<Rightarrow> (Inl e, out)
      | (Inr row', out) \<Rightarrow> (let (res, out') = annotate ps row' in (res, out @ out')))"

text \<open>
  The first three statements of the body of \<^verbatim>\<open>for idx in range(len(...))\<close>: the state is
  \<^verbatim>\<open>ts\<close> and \<^verbatim>\<open>day_tally\<close>, the result is the new state and the row with its
  \<^verbatim>\<open>'Daily Cumulative'\<close>; the addition may raise.
\<close>

definition tally_step :: "date \<times> decimal \<Rightarrow> Row \<Rightarrow> error + (date \<times> decimal) \<times> Row" where
  "tally_step st row =
     (let (ts, day_tally) = st;
          (day_tally, ts) =
             (if date_gt (date (Timestamp row)) ts then (Decimal 0 (-1), date (Timestamp row))
              else (day_tally, ts))
      in and_then (dec_add day_tally (Hourly_Total row)) (\<lambda>total.
           Inr ((ts, total), row\<lparr>Daily_Cumulative := total\<rparr>)))"

fun rows_loop ::
  "PricePlan list \<Rightarrow> date \<times> decimal \<Rightarrow> Row list \<Rightarrow> (error + Row list) \<times> diagnostic list" where
  "rows_loop ps st [] = (Inr [], [])"
| "rows_loop ps st (row # rows) =
     (case tally_step st row of
        Inl e \<Rightarrow> (Inl e, [])
      | Inr (st', row1) \<Rightarrow>
          (case annotate ps row1 of
             (Inl e, out) \<Rightarrow> (Inl e, out)
           | (Inr row2, out) \<Rightarrow>
               (case rows_loop ps st' rows of
                  (Inl e, out') \<Rightarrow> (Inl e, out @ out')
                | (Inr rows', out') \<Rightarrow> (Inr (row2 # rows'), out @ out'))))"

text \<open>
  The body of \<^verbatim>\<open>for meter in data[acct]\<close>: the stable sort by timestamp (timestamps are
  ordered as their instants are, with no float in between), the initial state from the
  first row, and the loop over the rows.
\<close>

definition process_meter ::
  "PricePlan list \<Rightarrow> Row list \<Rightarrow> (error + Row list) \<times> diagnostic list" where
  "process_meter ps rows =
     (let sorted_rows = sort_key (\<lambda>d. wall_us (Timestamp d)) rows
      in case sorted_rows of
           [] \<Rightarrow> (Inl IndexError, [])
         | row0 # _ \<Rightarrow> rows_loop ps (date (Timestamp row0), Decimal 0 (-1)) sorted_rows)"

subsection \<open>The daily accumulator as the specification words it\<close>



subsection \<open>Notions the properties are stated with\<close>


text \<open>
  A condition that holds of a row, and a plan none of whose predicates raises on a row.
\<close>

definition holds :: "Row \<Rightarrow> RateCondition \<Rightarrow> bool" where
  "holds row c = (match c row = Inr True)"

definition evaluates :: "PricePlan \<Rightarrow> Row \<Rightarrow> bool" where
  "evaluates p row = (\<forall>r\<in>set (rates p). \<forall>c\<in>set (conditions r). \<not> isl (match c row))"

text \<open>What \<^verbatim>\<open>rate.is_rate(row)\<close> returns.\<close>

definition applies :: "PlanRate \<Rightarrow> Row \<Rightarrow> error + bool" where
  "applies r row = fst (PlanRate_is_rate r row False)"

text \<open>
  The exact sum of the three charges of a tier, and the condition under which the context
  changes nothing while \<^verbatim>\<open>PlanRate.cost\<close> computes: the sum of the first two charges, the
  sum of the three and its product with the hourly usage have at most \<open>prec\<close> digits and
  exponents in the range of the context, with room for the exponent of the quotient.
\<close>

definition charges :: "PlanRate \<Rightarrow> decimal" where
  "charges r = aligned_sum (aligned_sum (distribution r) (capacity r)) (non_capacity r)"

definition no_rounding :: "PlanRate \<Rightarrow> Row \<Rightarrow> bool" where
  "no_rounding r row =
     (fits (aligned_sum (distribution r) (capacity r)) \<and> fits (charges r) \<and>
      fits (product (Hourly_Total row) (charges r)) \<and>
      Etiny + 2 \<le> expo (product (Hourly_Total row) (charges r)) \<and>
      expo (product (Hourly_Total row) (charges r)) + 1 \<le> Etop)"

text \<open>
  A tier whose charges have three decimals and add up without rounding to a sum of at
  most five digits, as those of every configured tier do.
\<close>

definition small_charges :: "PlanRate \<Rightarrow> bool" where
  "small_charges r =
     (fits (aligned_sum (distribution r) (capacity r)) \<and> fits (charges r) \<and>
      \<bar>coeff (charges r)\<bar> < 100000 \<and> expo (charges r) = - 3)"

text \<open>
  A plan whose predicates read nothing of the annotations the loop adds to a row.
\<close>

definition reads_no_annotation :: "PricePlan \<Rightarrow> bool" where
  "reads_no_annotation p =
     (\<forall>r\<in>set (rates p). \<forall>c\<in>set (conditions r). \<forall>row a.
        match c (row\<lparr>annotations := a\<rparr>) = match c row)"


section \<open>Properties\<close>

subsection \<open>Rate matching\<close>

lemma conditions_loop_debug:
  "fst (conditions_loop cs row debug) = fst (conditions_loop cs row False)"
  by (induction cs)
     (auto simp: RateCondition_is_rate_def split: sum.splits prod.splits)

lemma conditions_loop_True:
  "(fst (conditions_loop cs row debug) = Inr True) = list_all (holds row) cs"
  by (induction cs)
     (auto simp: RateCondition_is_rate_def holds_def split: sum.splits prod.splits)

lemma conditions_loop_returns:
  "\<forall>c\<in>set cs. \<not> isl (match c row) \<Longrightarrow>
   fst (conditions_loop cs row debug) = Inr (list_all (holds row) cs)"
  by (induction cs)
     (auto simp: RateCondition_is_rate_def holds_def split: sum.splits prod.splits)

lemma applies_True: "(applies r row = Inr True) = list_all (holds row) (conditions r)"
  by (simp add: applies_def PlanRate_is_rate_def conditions_loop_True)

lemma applies_returns:
  "\<forall>c\<in>set (conditions r). \<not> isl (match c row) \<Longrightarrow>
   applies r row = Inr (list_all (holds row) (conditions r))"
  by (simp add: applies_def PlanRate_is_rate_def conditions_loop_returns)

lemma first_rate_find:
  "\<forall>r\<in>set rs. \<forall>c\<in>set (conditions r). \<not> isl (match c row) \<Longrightarrow>
   first_rate rs row = Inr (find (\<lambda>r. list_all (holds row) (conditions r)) rs)"
  by (induction rs) (simp_all add: applies_def[symmetric] applies_returns and_then_def)

lemma debug_rates_returns:
  "first_rate rs row = Inr None \<Longrightarrow> fst (debug_rates rs row) = Inr ()"
proof (induction rs)
  case Nil
  then show ?case by simp
next
  case (Cons r rs)
  from Cons.prems have a: "fst (PlanRate_is_rate r row False) = Inr False"
    and rest: "first_rate rs row = Inr None"
    by (auto simp: and_then_def split: sum.splits if_splits)
  have "fst (PlanRate_is_rate r row True) = Inr False"
    using a unfolding PlanRate_is_rate_def by (subst conditions_loop_debug) simp
  with Cons.IH[OF rest] show ?case
    by (auto split: sum.splits prod.splits)
qed

lemma match_rate_fst: "fst (match_rate p row) = first_rate (rates p) row"
proof (cases "first_rate (rates p) row")
  case (Inl e)
  then show ?thesis by (simp add: match_rate_def)
next
  case (Inr x)
  show ?thesis
  proof (cases x)
    case None
    with Inr debug_rates_returns[of "rates p" row] show ?thesis
      by (auto simp: match_rate_def split: prod.splits sum.splits)
  next
    case (Some r)
    with Inr show ?thesis by (simp add: match_rate_def)
  qed
qed

lemma first_rate_Some:
  "(first_rate rs row = Inr (Some r)) =
   (\<exists>k<length rs. r = rs ! k \<and> applies (rs ! k) row = Inr True \<and>
      (\<forall>m<k. applies (rs ! m) row = Inr False))"
proof (induction rs)
  case Nil
  show ?case by simp
next
  case (Cons x xs)
  show ?case
  proof (cases "applies x row")
    case (Inl e)
    then have l: "first_rate (x # xs) row = Inl e"
      by (simp add: applies_def and_then_def)
    have "\<not> (\<exists>k<length (x # xs). r = (x # xs) ! k \<and> applies ((x # xs) ! k) row = Inr True \<and>
      (\<forall>m<k. applies ((x # xs) ! m) row = Inr False))"
    proof
      assume "\<exists>k<length (x # xs). r = (x # xs) ! k \<and> applies ((x # xs) ! k) row = Inr True \<and>
        (\<forall>m<k. applies ((x # xs) ! m) row = Inr False)"
      then obtain k where k: "applies ((x # xs) ! k) row = Inr True"
        "\<forall>m<k. applies ((x # xs) ! m) row = Inr False" by blast
      show False using k Inl by (cases k) auto
    qed
    with l show ?thesis by simp
  next
    case (Inr b)
    show ?thesis
    proof (cases b)
      case True
      with Inr have l: "first_rate (x # xs) row = Inr (Some x)"
        by (simp add: applies_def and_then_def)
      have "(\<exists>k<length (x # xs). r = (x # xs) ! k \<and> applies ((x # xs) ! k) row = Inr True \<and>
        (\<forall>m<k. applies ((x # xs) ! m) row = Inr False)) = (r = x)"
      proof
        assume "\<exists>k<length (x # xs). r = (x # xs) ! k \<and> applies ((x # xs) ! k) row = Inr True \<and>
          (\<forall>m<k. applies ((x # xs) ! m) row = Inr False)"
        then obtain k where k: "r = (x # xs) ! k"
          "\<forall>m<k. applies ((x # xs) ! m) row = Inr False" by blast
        have "k = 0"
        proof (rule ccontr)
          assume "k \<noteq> 0"
          then have "applies ((x # xs) ! 0) row = Inr False" using k(2) by blast
          with Inr True show False by simp
        qed
        with k(1) show "r = x" by simp
      next
        assume "r = x"
        with Inr True show "\<exists>k<length (x # xs). r = (x # xs) ! k \<and>
          applies ((x # xs) ! k) row = Inr True \<and>
          (\<forall>m<k. applies ((x # xs) ! m) row = Inr False)"
          by (intro exI[of _ 0]) simp
      qed
      with l show ?thesis by auto
    next
      case False
      with Inr have l: "first_rate (x # xs) row = first_rate xs row"
        by (simp add: applies_def and_then_def)
      have "(\<exists>k<length (x # xs). r = (x # xs) ! k \<and> applies ((x # xs) ! k) row = Inr True \<and>
        (\<forall>m<k. applies ((x # xs) ! m) row = Inr False)) =
        (\<exists>k<length xs. r = xs ! k \<and> applies (xs ! k) row = Inr True \<and>
        (\<forall>m<k. applies (xs ! m) row = Inr False))"
      proof
        assume "\<exists>k<length (x # xs). r = (x # xs) ! k \<and> applies ((x # xs) ! k) row = Inr True \<and>
          (\<forall>m<k. applies ((x # xs) ! m) row = Inr False)"
        then obtain k where k: "k < length (x # xs)" "r = (x # xs) ! k"
          "applies ((x # xs) ! k) row = Inr True"
          "\<forall>m<k. applies ((x # xs) ! m) row = Inr False" by blast
        from k(3) Inr False obtain k' where k': "k = Suc k'" by (cases k) auto
        have "\<forall>m<k'. applies (xs ! m) row = Inr False"
        proof (intro allI impI)
          fix m assume "m < k'"
          then have "Suc m < k" using k' by simp
          with k(4) have "applies ((x # xs) ! Suc m) row = Inr False" by blast
          then show "applies (xs ! m) row = Inr False" by simp
        qed
        with k k' show "\<exists>k<length xs. r = xs ! k \<and> applies (xs ! k) row = Inr True \<and>
          (\<forall>m<k. applies (xs ! m) row = Inr False)"
          by (intro exI[of _ k']) simp
      next
        assume "\<exists>k<length xs. r = xs ! k \<and> applies (xs ! k) row = Inr True \<and>
          (\<forall>m<k. applies (xs ! m) row = Inr False)"
        then obtain k where k: "k < length xs" "r = xs ! k" "applies (xs ! k) row = Inr True"
          "\<forall>m<k. applies (xs ! m) row = Inr False" by blast
        have "\<forall>m<Suc k. applies ((x # xs) ! m) row = Inr False"
        proof (intro allI impI)
          fix m assume m: "m < Suc k"
          show "applies ((x # xs) ! m) row = Inr False"
            using m k(4) Inr False by (cases m) auto
        qed
        with k show "\<exists>k<length (x # xs). r = (x # xs) ! k \<and>
          applies ((x # xs) ! k) row = Inr True \<and>
          (\<forall>m<k. applies ((x # xs) ! m) row = Inr False)"
          by (intro exI[of _ "Suc k"]) simp
      qed
      with l Cons.IH show ?thesis by simp
    qed
  qed
qed

lemma first_rate_first_index:
  "i < length rs \<Longrightarrow> applies (rs ! i) row = Inr True \<Longrightarrow>
   \<forall>m<i. \<not> isl (applies (rs ! m) row) \<Longrightarrow>
   \<exists>k\<le>i. first_rate rs row = Inr (Some (rs ! k)) \<and> applies (rs ! k) row = Inr True \<and>
          (\<forall>m<k. applies (rs ! m) row = Inr False)"
proof (induction rs arbitrary: i)
  case Nil
  then show ?case by simp
next
  case (Cons x xs)
  show ?case
  proof (cases "applies x row = Inr True")
    case True
    then have "first_rate (x # xs) row = Inr (Some x)" by (simp add: applies_def and_then_def)
    with True show ?thesis by (intro exI[of _ 0]) simp
  next
    case False
    with Cons.prems(2) obtain i' where i': "i = Suc i'" by (cases i) auto
    have "\<not> isl (applies ((x # xs) ! 0) row)" using Cons.prems(3) i' by blast
    with False have x: "applies x row = Inr False" by (cases "applies x row") auto
    then have l: "first_rate (x # xs) row = first_rate xs row"
      by (simp add: applies_def and_then_def)
    have "\<forall>m<i'. \<not> isl (applies (xs ! m) row)"
    proof (intro allI impI)
      fix m assume "m < i'"
      then have "Suc m < i" using i' by simp
      with Cons.prems(3) have "\<not> isl (applies ((x # xs) ! Suc m) row)" by blast
      then show "\<not> isl (applies (xs ! m) row)" by simp
    qed
    moreover have "i' < length xs" "applies (xs ! i') row = Inr True"
      using Cons.prems(1,2) i' by simp_all
    ultimately obtain k where k: "k \<le> i'" "first_rate xs row = Inr (Some (xs ! k))"
      "applies (xs ! k) row = Inr True" "\<forall>m<k. applies (xs ! m) row = Inr False"
      using Cons.IH[of i'] by blast
    have "\<forall>m<Suc k. applies ((x # xs) ! m) row = Inr False"
    proof (intro allI impI)
      fix m assume "m < Suc k"
      then show "applies ((x # xs) ! m) row = Inr False" using k(4) x by (cases m) auto
    qed
    with k l i' show ?thesis by (intro exI[of _ "Suc k"]) simp
  qed
qed


text \<open>No predicate of the configured plans raises before the year 9999.\<close>

lemma hour_window_returns: "year t < 9999 \<Longrightarrow> \<not> isl (hour_window t a b)"
  by (simp add: hour_window_def ceil_hour_def span_hour_def replace_hour_def and_then_def)

lemma or_else_returns: "\<not> isl a \<Longrightarrow> \<not> isl b \<Longrightarrow> \<not> isl (or_else a b)"
  by (cases a; cases b) (auto simp: or_else_def and_then_def)

lemma predicates_return:
  "\<not> isl (cumulative_le_17 row)" "\<not> isl (cumulative_gt_17 row)"
  "\<not> isl (monday_to_friday row)" "\<not> isl (saturday_to_sunday row)"
  "year (Timestamp row) < 9999 \<Longrightarrow> \<not> isl (day_0601_1031 row)"
  "year (Timestamp row) < 9999 \<Longrightarrow> \<not> isl (day_1101_0531 row)"
  "year (Timestamp row) < 9999 \<Longrightarrow> \<not> isl (hour_19_to_10 row)"
  "year (Timestamp row) < 9999 \<Longrightarrow> \<not> isl (hour_11_to_18 row)"
  "year (Timestamp row) < 9999 \<Longrightarrow> \<not> isl (hour_19_to_22_or_7_to_14 row)"
  "year (Timestamp row) < 9999 \<Longrightarrow> \<not> isl (hour_15_to_18 row)"
  "year (Timestamp row) < 9999 \<Longrightarrow> \<not> isl (hour_23_to_6 row)"
  "year (Timestamp row) < 9999 \<Longrightarrow> \<not> isl (hour_9_to_22 row)"
  "year (Timestamp row) < 9999 \<Longrightarrow> \<not> isl (hour_23_to_8 row)"
  by (simp_all add: cumulative_le_17_def cumulative_gt_17_def monday_to_friday_def
      saturday_to_sunday_def day_0601_1031_def day_1101_0531_def floor_day_def ceil_day_def
      span_day_def shift_years_1_def replace_month_day_def and_then_def
      hour_19_to_10_def hour_11_to_18_def hour_19_to_22_or_7_to_14_def hour_15_to_18_def
      hour_23_to_6_def hour_9_to_22_def hour_23_to_8_def hour_window_returns or_else_returns)

lemma plans_evaluate:
  assumes "p \<in> set plans" "year (Timestamp row) < 9999"
  shows "evaluates p row"
  using assms(1) predicates_return(1-4)[of row] predicates_return(5-13)[OF assms(2)]
  by (auto simp: evaluates_def plans_def D1_def D1_2_def D1_9_def D1_8_def
      First_17kWh_def After_17kWh_def Summer_Off_Peak_def Summer_On_Peak_def Winter_Off_Peak_def
      Winter_On_Peak_def Dynamic_Mid_Peak_def Dynamic_On_Peak_def Dynamic_Off_Peak_Weekday_def
      Dynamic_Off_Peak_Weekend_def EV_On_Peak_def EV_Off_Peak_Weekday_def EV_Off_Peak_Weekend_def)

text \<open>
  C6. Tier resolution returns the first tier in declared order whose conditions all
  match. When no predicate of the plan raises, \<^verbatim>\<open>match_rate\<close> is the search for the first
  such tier in \<open>rates\<close>; no predicate of a configured plan raises before the year 9999.
  Whenever the tiers at two positions \<open>i < j\<close> both have all their conditions satisfied by
  the row and no tier before \<open>i\<close> raises, the tier returned stands at a position \<open>k \<le> i\<close>,
  it is satisfied, and no tier before it is; when no tier before \<open>i\<close> is satisfied, it is
  the tier at \<open>i\<close>. In every case \<^verbatim>\<open>match_rate\<close> returns a tier exactly when that tier
  stands at a position where \<^verbatim>\<open>is_rate\<close> returns \<^verbatim>\<open>True\<close> after it has returned \<^verbatim>\<open>False\<close>
  at every position before.
\<close>

theorem match_rate_first_in_declared_order:
  "(evaluates p row \<longrightarrow>
      fst (match_rate p row) =
        Inr (find (\<lambda>r. list_all (holds row) (conditions r)) (rates p))) \<and>
   (p \<in> set plans \<and> year (Timestamp row) < 9999 \<longrightarrow> evaluates p row) \<and>
   (i < j \<and> j < length (rates p) \<and>
    list_all (holds row) (conditions (rates p ! i)) \<and>
    list_all (holds row) (conditions (rates p ! j)) \<and>
    (\<forall>m<i. \<not> isl (applies (rates p ! m) row)) \<longrightarrow>
      (\<exists>k\<le>i. fst (match_rate p row) = Inr (Some (rates p ! k)) \<and>
              list_all (holds row) (conditions (rates p ! k)) \<and>
              (\<forall>m<k. \<not> list_all (holds row) (conditions (rates p ! m))) \<and>
              ((\<forall>m<i. \<not> list_all (holds row) (conditions (rates p ! m))) \<longrightarrow> k = i))) \<and>
   (fst (match_rate p row) = Inr (Some r)) =
     (\<exists>k<length (rates p). r = rates p ! k \<and> applies (rates p ! k) row = Inr True \<and>
        (\<forall>m<k. applies (rates p ! m) row = Inr False))"
proof (intro conjI impI)
  assume "evaluates p row"
  then show "fst (match_rate p row) =
      Inr (find (\<lambda>r. list_all (holds row) (conditions r)) (rates p))"
    unfolding match_rate_fst evaluates_def by (rule first_rate_find)
next
  assume "p \<in> set plans \<and> year (Timestamp row) < 9999"
  then show "evaluates p row" using plans_evaluate by blast
next
  let ?P = "\<lambda>r. list_all (holds row) (conditions r)"
  assume a: "i < j \<and> j < length (rates p) \<and> ?P (rates p ! i) \<and> ?P (rates p ! j) \<and>
    (\<forall>m<i. \<not> isl (applies (rates p ! m) row))"
  then have "i < length (rates p)" "applies (rates p ! i) row = Inr True"
    "\<forall>m<i. \<not> isl (applies (rates p ! m) row)" by (auto simp: applies_True)
  from first_rate_first_index[OF this]
  obtain k where k: "k \<le> i" "first_rate (rates p) row = Inr (Some (rates p ! k))"
    "applies (rates p ! k) row = Inr True" "\<forall>m<k. applies (rates p ! m) row = Inr False"
    by blast
  have n: "\<forall>m<k. \<not> ?P (rates p ! m)"
  proof (intro allI impI)
    fix m assume "m < k"
    with k(4) have "applies (rates p ! m) row = Inr False" by blast
    then have "applies (rates p ! m) row \<noteq> Inr True" by simp
    then show "\<not> ?P (rates p ! m)" by (simp add: applies_True)
  qed
  have "(\<forall>m<i. \<not> ?P (rates p ! m)) \<longrightarrow> k = i"
    using k(1,3) by (auto simp: le_less applies_True)
  with k n show "\<exists>k\<le>i. fst (match_rate p row) = Inr (Some (rates p ! k)) \<and> ?P (rates p ! k) \<and>
      (\<forall>m<k. \<not> ?P (rates p ! m)) \<and> ((\<forall>m<i. \<not> ?P (rates p ! m)) \<longrightarrow> k = i)"
    by (auto simp: match_rate_fst applies_True)
next
  show "(fst (match_rate p row) = Inr (Some r)) =
     (\<exists>k<length (rates p). r = rates p ! k \<and> applies (rates p ! k) row = Inr True \<and>
        (\<forall>m<k. applies (rates p ! m) row = Inr False))"
    unfolding match_rate_fst by (rule first_rate_Some)
qed

theorem match_rate_first_in_declared_order_witness:
  "map_sum id (map_option PlanRate.name)
     (fst (match_rate
        \<lparr>PricePlan.name = ''P'',
         rates = [First_17kWh\<lparr>PlanRate.name := ''A''\<rparr>, First_17kWh\<lparr>PlanRate.name := ''B''\<rparr>],
         service_charge = Decimal 0 0\<rparr>
        ((csv_row 2023 7 10 5 0 (Decimal 25 (-1)))\<lparr>Daily_Cumulative := Decimal 25 (-1)\<rparr>)))
   = Inr (Some ''A'') \<and>
   D1 \<in> set plans \<and>
   year (Timestamp ((csv_row 2023 7 10 5 0 (Decimal 25 (-1)))\<lparr>Daily_Cumulative := Decimal 25 (-1)\<rparr>))
     < 9999 \<and>
   evaluates D1 ((csv_row 2023 7 10 5 0 (Decimal 25 (-1)))\<lparr>Daily_Cumulative := Decimal 25 (-1)\<rparr>) \<and>
   map_sum id (map_option PlanRate.name)
     (fst (match_rate D1
        ((csv_row 2023 7 10 5 0 (Decimal 25 (-1)))\<lparr>Daily_Cumulative := Decimal 25 (-1)\<rparr>)))
   = Inr (Some ''First 17kWh'')"
proof -
  let ?p = "\<lparr>PricePlan.name = ''P'',
         rates = [First_17kWh\<lparr>PlanRate.name := ''A''\<rparr>, First_17kWh\<lparr>PlanRate.name := ''B''\<rparr>],
         service_charge = Decimal 0 0\<rparr>"
  let ?row = "(csv_row 2023 7 10 5 0 (Decimal 25 (-1)))\<lparr>Daily_Cumulative := Decimal 25 (-1)\<rparr>"
  have m: "cumulative_le_17 ?row = Inr True"
    by (simp add: cumulative_le_17_def dec_le_def csv_row_def)
  have g: "cumulative_gt_17 ?row = Inr False"
    by (simp add: cumulative_gt_17_def dec_gt_def csv_row_def)
  have h: "(0::nat) < 1 \<and> 1 < length (rates ?p) \<and>
      list_all (holds ?row) (conditions (rates ?p ! 0)) \<and>
      list_all (holds ?row) (conditions (rates ?p ! 1)) \<and>
      (\<forall>m<(0::nat). \<not> isl (applies (rates ?p ! m) ?row))"
    using m by (simp add: First_17kWh_def holds_def)
  from match_rate_first_in_declared_order[of ?p ?row 0 1] h
  have "\<exists>k\<le>0. fst (match_rate ?p ?row) = Inr (Some (rates ?p ! k))" by blast
  then have "fst (match_rate ?p ?row) = Inr (Some (rates ?p ! 0))" by simp
  then have a: "map_sum id (map_option PlanRate.name) (fst (match_rate ?p ?row)) = Inr (Some ''A'')"
    by simp
  have mem: "D1 \<in> set plans" by (simp add: plans_def)
  have y: "year (Timestamp ?row) < 9999" by (simp add: csv_row_def)
  from match_rate_first_in_declared_order[of D1 ?row] mem y
  have e: "evaluates D1 ?row" by blast
  with match_rate_first_in_declared_order[of D1 ?row]
  have "fst (match_rate D1 ?row) =
      Inr (find (\<lambda>r. list_all (holds ?row) (conditions r)) (rates D1))" by blast
  then have b: "map_sum id (map_option PlanRate.name) (fst (match_rate D1 ?row)) =
      Inr (Some ''First 17kWh'')"
    using m g by (simp add: D1_def First_17kWh_def After_17kWh_def holds_def)
  from a mem y e b show ?thesis by (intro conjI)
qed

subsection \<open>Float timestamps\<close>

lemma log2floor_bounds:
  "0 < d \<Longrightarrow> d \<le> n \<Longrightarrow> d * 2 ^ log2floor n d \<le> n \<and> n < d * 2 ^ (log2floor n d + 1)"
proof (induction n d rule: log2floor.induct)
  case (1 n d)
  show ?case
  proof (cases "n < 2 * d")
    case True
    then have "log2floor n d = 0" by (subst log2floor.simps) simp
    with True "1.prems" show ?thesis by simp
  next
    case False
    with "1.prems" have s: "log2floor n d = Suc (log2floor n (2 * d))"
      by (subst log2floor.simps) simp
    from False "1.prems" have "\<not> (d \<le> 0 \<or> n < 2 * d)" "0 < 2 * d" "2 * d \<le> n" by auto
    from "1.IH"[OF this] show ?thesis unfolding s by (simp add: mult.assoc)
  qed
qed


lemma div_half_even_exact:
  "0 < b \<Longrightarrow> div_half_even (k * b) b = k"
  by (simp add: div_half_even_def)

lemma div_half_even_mono:
  assumes "0 < b" "a \<le> a'"
  shows "div_half_even a b \<le> div_half_even a' b"
proof (cases "a div b < a' div b")
  case True
  have "div_half_even a b \<le> a div b + 1" by (simp add: div_half_even_def Let_def)
  also have "\<dots> \<le> a' div b" using True by simp
  also have "\<dots> \<le> div_half_even a' b" by (simp add: div_half_even_def Let_def)
  finally show ?thesis .
next
  case False
  have "a div b \<le> a' div b" using assms by (simp add: zdiv_mono1)
  with False have q: "a div b = a' div b" by simp
  have "a = (a div b) * b + a mod b" "a' = (a' div b) * b + a' mod b" by simp_all
  with q assms(2) have "a mod b \<le> a' mod b"
    by (metis add_le_cancel_left)
  then show ?thesis unfolding div_half_even_def Let_def q by auto
qed

lemma float_seconds_pos:
  assumes "0 < u"
  shows "float_seconds u =
     div_half_even (u * 2 ^ 72) (1000000 * 2 ^ log2floor (u * 2 ^ 20) 1000000)
       * 2 ^ log2floor (u * 2 ^ 20) 1000000"
proof -
  have "u * 2 ^ 20 * 2 ^ 52 = u * 2 ^ 72" by simp
  then show ?thesis using assms
    by (simp only: float_seconds_def Let_def) (simp add: mult.commute)
qed

lemma float_seconds_neg: "float_seconds (- u) = - float_seconds u"
  by (simp add: float_seconds_def Let_def)

lemma pow2_less: "(2::int) ^ j < 2 ^ k \<Longrightarrow> j < k"
  by (rule power_less_imp_less_exp[of 2]) simp_all

lemma float_seconds_pos_range:
  assumes "0 < u"
  shows "2 ^ 52 * 2 ^ log2floor (u * 2 ^ 20) 1000000 \<le> float_seconds u \<and>
         float_seconds u \<le> 2 ^ 53 * 2 ^ log2floor (u * 2 ^ 20) 1000000"
proof -
  define j where "j = log2floor (u * 2 ^ 20) 1000000"
  define b :: int where "b = 1000000 * 2 ^ j"
  have b: "0 < b" by (simp add: b_def)
  have "(1000000::int) \<le> u * 2 ^ 20" using assms by simp
  from log2floor_bounds[OF _ this] have
    lo: "1000000 * 2 ^ j \<le> u * 2 ^ 20" and hi: "u * 2 ^ 20 < 1000000 * 2 ^ (j + 1)"
    by (simp_all add: j_def)
  have "2 ^ 52 * b \<le> u * 2 ^ 72" using lo by (simp add: b_def)
  from div_half_even_mono[OF b this] have m1: "2 ^ 52 \<le> div_half_even (u * 2 ^ 72) b"
    by (simp add: div_half_even_exact[OF b])
  have "u * 2 ^ 72 \<le> 2 ^ 53 * b" using hi by (simp add: b_def)
  from div_half_even_mono[OF b this] have m2: "div_half_even (u * 2 ^ 72) b \<le> 2 ^ 53"
    by (simp add: div_half_even_exact[OF b])
  have "float_seconds u = div_half_even (u * 2 ^ 72) b * 2 ^ j"
    unfolding b_def j_def by (rule float_seconds_pos[OF assms])
  with m1 m2 show ?thesis unfolding j_def[symmetric]
    by (simp add: mult_right_mono)
qed

lemma float_seconds_pos_mono:
  assumes "0 < u" "u \<le> v"
  shows "float_seconds u \<le> float_seconds v"
proof -
  define j where "j = log2floor (u * 2 ^ 20) 1000000"
  define k where "k = log2floor (v * 2 ^ 20) 1000000"
  have v: "0 < v" using assms by simp
  have "(1000000::int) \<le> u * 2 ^ 20" "(1000000::int) \<le> v * 2 ^ 20" using assms by simp_all
  from log2floor_bounds[OF _ this(1)] log2floor_bounds[OF _ this(2)] have
    lo: "1000000 * 2 ^ j \<le> u * 2 ^ 20" and hi: "v * 2 ^ 20 < 1000000 * 2 ^ (k + 1)"
    by (simp_all add: j_def k_def)
  have "(1000000::int) * 2 ^ j < 1000000 * 2 ^ (k + 1)"
    using lo hi assms(2) by (smt (verit) mult_right_mono zero_le_power)
  then have "(2::int) ^ j < 2 ^ (k + 1)" by simp
  then have jk: "j \<le> k" using pow2_less[of j "k + 1"] by simp
  show ?thesis
  proof (cases "j = k")
    case True
    have "u * 2 ^ 72 \<le> v * 2 ^ 72" using assms(2) by simp
    from div_half_even_mono[OF _ this, of "1000000 * 2 ^ j"]
    have "div_half_even (u * 2 ^ 72) (1000000 * 2 ^ j) \<le> div_half_even (v * 2 ^ 72) (1000000 * 2 ^ j)"
      by simp
    then show ?thesis
      unfolding float_seconds_pos[OF assms(1)] float_seconds_pos[OF v] j_def[symmetric]
        k_def[symmetric] True[symmetric]
      by (simp add: mult_right_mono)
  next
    case False
    with jk have "j + 1 \<le> k" by simp
    then have p: "(2::int) ^ (j + 1) \<le> 2 ^ k" by (rule power_increasing) simp
    have "float_seconds u \<le> 2 ^ 53 * 2 ^ j"
      using float_seconds_pos_range[OF assms(1)] by (simp add: j_def)
    also have "\<dots> = 2 ^ 52 * 2 ^ (j + 1)" by simp
    also have "\<dots> \<le> 2 ^ 52 * 2 ^ k" using p by simp
    also have "\<dots> \<le> float_seconds v"
      using float_seconds_pos_range[OF v] by (simp add: k_def)
    finally show ?thesis .
  qed
qed

lemma float_seconds_pos_gt: "0 < u \<Longrightarrow> 0 < float_seconds u"
  using float_seconds_pos_range[of u]
  by (smt (verit) zero_less_power mult_pos_pos)

lemma float_seconds_mono:
  assumes "u \<le> v"
  shows "float_seconds u \<le> float_seconds v"
proof -
  consider "0 < u" | "u = 0" | "u < 0" "0 \<le> v" | "v < 0" using assms by linarith
  then show ?thesis
  proof cases
    case 1
    then show ?thesis using assms by (rule float_seconds_pos_mono)
  next
    case 2
    then show ?thesis using assms float_seconds_pos_gt[of v]
      by (cases "v = 0") (auto simp: float_seconds_def less_le)
  next
    case 3
    have "float_seconds u < 0"
      using float_seconds_pos_gt[of "- u"] 3(1) by (simp add: float_seconds_neg)
    moreover have "0 \<le> float_seconds v"
      using float_seconds_pos_gt[of v] 3(2) by (cases "v = 0") (auto simp: float_seconds_def less_le)
    ultimately show ?thesis by simp
  next
    case 4
    then have "0 < - v" "- v \<le> - u" using assms by simp_all
    from float_seconds_pos_mono[OF this] show ?thesis by (simp add: float_seconds_neg)
  qed
qed

text \<open>A whole number of seconds below \<^verbatim>\<open>2**53\<close> is its own float.\<close>

lemma float_seconds_whole_pos:
  assumes "0 < X" "X < 2 ^ 53"
  shows "float_seconds (X * 1000000) = X * 2 ^ 72"
proof -
  define j where "j = log2floor (X * 1000000 * 2 ^ 20) 1000000"
  have "(1000000::int) \<le> X * 1000000 * 2 ^ 20" using assms by simp
  from log2floor_bounds[OF _ this] have
    lo: "1000000 * 2 ^ j \<le> X * 1000000 * 2 ^ 20"
    by (simp_all add: j_def)
  then have "(2::int) ^ j \<le> X * 2 ^ 20" by simp
  also have "\<dots> < 2 ^ 53 * 2 ^ 20" using assms by simp
  finally have "(2::int) ^ j < 2 ^ 73" by simp
  then have "j < 73" by (rule pow2_less)
  then have j: "j \<le> 72" by simp
  have p: "(2::int) ^ 72 = 2 ^ (72 - j) * 2 ^ j"
    using j by (simp add: power_add[symmetric])
  have e: "X * 1000000 * 2 ^ 72 = (X * 2 ^ (72 - j)) * (1000000 * 2 ^ j)"
    by (subst p) simp
  have "div_half_even (X * 1000000 * 2 ^ 72) (1000000 * 2 ^ j) = X * 2 ^ (72 - j)"
    unfolding e by (rule div_half_even_exact) simp
  moreover have "0 < X * 1000000" using assms by simp
  ultimately have "float_seconds (X * 1000000) = X * 2 ^ (72 - j) * 2 ^ j"
    unfolding float_seconds_pos[OF \<open>0 < X * 1000000\<close>] j_def[symmetric] by simp
  also have "\<dots> = X * 2 ^ 72" by (subst p) simp
  finally show ?thesis .
qed

lemma float_seconds_whole:
  assumes "\<bar>X\<bar> < 2 ^ 53"
  shows "float_seconds (X * 1000000) = X * 2 ^ 72"
proof -
  consider "0 < X" | "X = 0" | "X < 0" by linarith
  then show ?thesis
  proof cases
    case 1
    then show ?thesis using assms by (intro float_seconds_whole_pos) simp_all
  next
    case 2
    then show ?thesis by (simp add: float_seconds_def)
  next
    case 3
    then have "0 < - X" "- X < 2 ^ 53" using assms by simp_all
    from float_seconds_whole_pos[OF this] show ?thesis
      using float_seconds_neg[of "X * 1000000"] by simp
  qed
qed




subsection \<open>Where a timestamp lies\<close>

lemma days_before_year_between:
  assumes "lo \<le> y" "y \<le> hi"
  shows "(lo - 1) * 365 + (lo - 1) div 4 - (hi - 1) div 100 + (lo - 1) div 400 \<le> days_before_year y"
    "days_before_year y \<le> (hi - 1) * 365 + (hi - 1) div 4 - (lo - 1) div 100 + (hi - 1) div 400"
proof -
  have lin: "n1 * 365 + a1 - b1 + c1 \<le> n * 365 + a - b + c"
    if "n1 \<le> n" "a1 \<le> a" "b \<le> b1" "c1 \<le> c" for n1 n a1 a b1 b c1 c :: int
    using that by simp
  have a: "lo - 1 \<le> y - 1" "y - 1 \<le> hi - 1" using assms by simp_all
  show "(lo - 1) * 365 + (lo - 1) div 4 - (hi - 1) div 100 + (lo - 1) div 400 \<le> days_before_year y"
    unfolding days_before_year_def by (intro lin zdiv_mono1 a) simp_all
  show "days_before_year y \<le> (hi - 1) * 365 + (hi - 1) div 4 - (lo - 1) div 100 + (hi - 1) div 400"
    unfolding days_before_year_def by (intro lin zdiv_mono1 a) simp_all
qed

lemma days_before_year_bounds:
  assumes "1 \<le> y" "y \<le> 9999"
  shows "- 99 \<le> days_before_year y \<and> days_before_year y \<le> 3651793"
  using days_before_year_between[OF assms] by simp


lemma days_before_month_bounds:
  assumes "1 \<le> m" "m \<le> 12"
  shows "0 \<le> days_before_month y m \<and> days_before_month y m \<le> 335"
proof -
  from assms have "m = 1 \<or> m = 2 \<or> m = 3 \<or> m = 4 \<or> m = 5 \<or> m = 6 \<or> m = 7 \<or>
      m = 8 \<or> m = 9 \<or> m = 10 \<or> m = 11 \<or> m = 12" by arith
  then show ?thesis
    by (elim disjE) (simp_all add: days_before_month_def)
qed

lemma posix_us_eq:
  "posix_us t =
     ymd2ord (year t) (month t) (day t) * 86400000000 + hour t * 3600000000 +
     minute t * 60000000 + second t * 1000000 + microsecond t - 62135665200000000"
  by (simp add: posix_us_def wall_us_def algebra_simps)

lemma posix_us_bounds:
  assumes "valid_time t" "valid_date t" "1 \<le> year t" "year t \<le> 9999"
  shows "- 70000000000000000 < posix_us t" "posix_us t < 300000000000000000"
proof -
  from days_before_year_bounds[OF assms(3,4)] days_before_month_bounds[of "month t" "year t"]
    assms(2)
  have "- 98 \<le> ymd2ord (year t) (month t) (day t)" "ymd2ord (year t) (month t) (day t) \<le> 3652159"
    by (simp_all add: ymd2ord_def valid_date_def)
  with assms(1) show "- 70000000000000000 < posix_us t" "posix_us t < 300000000000000000"
    unfolding posix_us_eq valid_time_def by linarith+
qed



subsection \<open>Hour windows\<close>

text \<open>Two instants two seconds apart have different float timestamps.\<close>

lemma float_seconds_gap:
  assumes "u + 2000000 \<le> v" "- 300000000000000000 < u" "v < 300000000000000000"
  shows "float_seconds u < float_seconds v"
proof -
  define q where "q = u div 1000000"
  define r where "r = u mod 1000000"
  have u: "u = q * 1000000 + r" and r: "0 \<le> r" "r < 1000000"
    by (simp_all add: q_def r_def)
  have le1: "u \<le> (q + 1) * 1000000" using u r by simp
  have le2: "(q + 2) * 1000000 \<le> v" using u r assms(1) by simp
  have b: "\<bar>q + 1\<bar> < 2 ^ 53" "\<bar>q + 2\<bar> < 2 ^ 53" using u r assms by simp_all
  have "float_seconds u \<le> float_seconds ((q + 1) * 1000000)"
    using le1 by (rule float_seconds_mono)
  also have "\<dots> = (q + 1) * 2 ^ 72" using b(1) by (rule float_seconds_whole)
  also have "\<dots> < (q + 2) * 2 ^ 72" by simp
  also have "\<dots> = float_seconds ((q + 2) * 1000000)"
    using b(2) by (rule float_seconds_whole[symmetric])
  also have "\<dots> \<le> float_seconds v" using le2 by (rule float_seconds_mono)
  finally show ?thesis .
qed













subsection \<open>Thresholds\<close>

lemma pow_align:
  assumes "e \<le> ea"
  shows "(of_int (c * 10 ^ nat (ea - e)) :: rat) * 10 powi e = of_int c * 10 powi ea"
proof -
  define k where "k = nat (ea - e)"
  have ea: "ea = int k + e" using assms by (simp add: k_def)
  have "(10::rat) powi ea = 10 ^ k * 10 powi e"
    unfolding ea by (subst power_int_add) (simp_all add: power_int_of_nat)
  then show ?thesis unfolding k_def[symmetric] by simp
qed

lemma dec_le_exact: "dec_le a b = (dec_val a \<le> dec_val b)"
proof -
  define e where "e = min (expo a) (expo b)"
  have pos: "(0::rat) < 10 powi e" by (simp add: zero_less_power_int)
  have "dec_val a = of_int (coeff a * 10 ^ nat (expo a - e)) * 10 powi e"
    unfolding dec_val_def by (rule pow_align[symmetric]) (simp add: e_def)
  moreover have "dec_val b = of_int (coeff b * 10 ^ nat (expo b - e)) * 10 powi e"
    unfolding dec_val_def by (rule pow_align[symmetric]) (simp add: e_def)
  ultimately have "(dec_val a \<le> dec_val b) =
      ((of_int (coeff a * 10 ^ nat (expo a - e)) :: rat) \<le> of_int (coeff b * 10 ^ nat (expo b - e)))"
    using pos by (simp only: mult_le_cancel_right_pos)
  also have "\<dots> = (coeff a * 10 ^ nat (expo a - e) \<le> coeff b * 10 ^ nat (expo b - e))"
    by (simp only: of_int_le_iff)
  finally show ?thesis by (simp add: dec_le_def e_def Let_def)
qed

lemma dec_gt_exact: "dec_gt a b = (dec_val b < dec_val a)"
proof -
  have "dec_gt a b = (\<not> dec_le a b)" by (auto simp: dec_gt_def dec_le_def Let_def)
  then show ?thesis by (simp add: dec_le_exact not_le)
qed

text \<open>
  C8. The threshold conditions of D1 compare the daily cumulative usage exactly: the
  integer comparison of the padded coefficients decides \<open>\<le> 17\<close> and \<open>> 17\<close> on the
  rational number the decimal denotes. With a cumulative usage of exactly 17 (written
  \<^verbatim>\<open>17\<close> or, as the accumulator produces it, \<^verbatim>\<open>17.0\<close>) the condition \<^verbatim>\<open><=17\<close> matches and
  \<^verbatim>\<open>>17\<close> does not, and D1 resolves to its first tier; with 17.0001 it is the reverse.
\<close>

theorem thresholds_compare_exactly:
  "cumulative_le_17 row = Inr (dec_val (Daily_Cumulative row) \<le> 17) \<and>
   cumulative_gt_17 row = Inr (17 < dec_val (Daily_Cumulative row)) \<and>
   cumulative_le_17 (row\<lparr>Daily_Cumulative := Decimal 17 0\<rparr>) = Inr True \<and>
   cumulative_gt_17 (row\<lparr>Daily_Cumulative := Decimal 17 0\<rparr>) = Inr False \<and>
   cumulative_le_17 (row\<lparr>Daily_Cumulative := Decimal 170 (-1)\<rparr>) = Inr True \<and>
   cumulative_gt_17 (row\<lparr>Daily_Cumulative := Decimal 170 (-1)\<rparr>) = Inr False \<and>
   cumulative_gt_17 (row\<lparr>Daily_Cumulative := Decimal 170001 (-4)\<rparr>) = Inr True \<and>
   cumulative_le_17 (row\<lparr>Daily_Cumulative := Decimal 170001 (-4)\<rparr>) = Inr False \<and>
   map_sum id (map_option PlanRate.name)
     (fst (match_rate D1 (row\<lparr>Daily_Cumulative := Decimal 170 (-1)\<rparr>)))
     = Inr (Some ''First 17kWh'') \<and>
   map_sum id (map_option PlanRate.name)
     (fst (match_rate D1 (row\<lparr>Daily_Cumulative := Decimal 170001 (-4)\<rparr>)))
     = Inr (Some ''After 17kWh'')"
proof -
  have le: "\<And>r. cumulative_le_17 r = Inr (dec_val (Daily_Cumulative r) \<le> 17)"
    by (simp add: cumulative_le_17_def dec_le_exact dec_val_def)
  have gt: "\<And>r. cumulative_gt_17 r = Inr (17 < dec_val (Daily_Cumulative r))"
    by (simp add: cumulative_gt_17_def dec_gt_exact dec_val_def)
  have v: "dec_val (Decimal 17 0) = 17" "dec_val (Decimal 170 (-1)) = 17"
    "dec_val (Decimal 170001 (-4)) = 170001 / 10000"
    by (simp_all add: dec_val_def)
  have f: "\<And>r. first_rate (rates D1) r =
      Inr (find (\<lambda>t. list_all (holds r) (conditions t)) (rates D1))"
    by (rule first_rate_find) (simp add: D1_def First_17kWh_def After_17kWh_def le gt)
  have m1: "map_sum id (map_option PlanRate.name)
      (fst (match_rate D1 (row\<lparr>Daily_Cumulative := Decimal 170 (-1)\<rparr>))) = Inr (Some ''First 17kWh'')"
    unfolding match_rate_fst f by (simp add: D1_def First_17kWh_def holds_def le v)
  have m2: "map_sum id (map_option PlanRate.name)
      (fst (match_rate D1 (row\<lparr>Daily_Cumulative := Decimal 170001 (-4)\<rparr>))) = Inr (Some ''After 17kWh'')"
    unfolding match_rate_fst f
    by (simp add: D1_def First_17kWh_def After_17kWh_def holds_def le gt v)
  show ?thesis
    using m1 m2 by (simp add: le gt v)
qed

subsection \<open>Decimal arithmetic without rounding\<close>

lemma ndigits_le:
  "0 < k \<Longrightarrow> n < 10 ^ k \<Longrightarrow> ndigits n \<le> k"
proof (induction k arbitrary: n)
  case 0
  then show ?case by simp
next
  case (Suc k)
  show ?case
  proof (cases "n < 10")
    case True
    then show ?thesis by (simp add: ndigits.simps)
  next
    case False
    then have k: "0 < k" using Suc.prems(2) by (cases k) auto
    have "n div 10 < 10 ^ k" using Suc.prems(2) by simp
    from Suc.IH[OF k this] False show ?thesis by (simp add: ndigits.simps)
  qed
qed

lemma ndigits_pos: "0 < ndigits n"
  by (subst ndigits.simps) simp

lemma dec_fix_fits: "fits d \<Longrightarrow> dec_fix d = Inr d"
  using ndigits_le[of prec "\<bar>coeff d\<bar>"]
  by (cases d) (auto simp: dec_fix_def fits_def Let_def prec_def Etiny_def Etop_def Emax_def Emin_def)

lemma dec_val_aligned_sum: "dec_val (aligned_sum a b) = dec_val a + dec_val b"
proof -
  define e where "e = min (expo a) (expo b)"
  have "dec_val (aligned_sum a b) =
      of_int (coeff a * 10 ^ nat (expo a - e)) * 10 powi e +
      of_int (coeff b * 10 ^ nat (expo b - e)) * 10 powi e"
    by (simp add: aligned_sum_def dec_val_def Let_def e_def algebra_simps)
  also have "\<dots> = dec_val a + dec_val b"
    unfolding dec_val_def by (subst pow_align, simp add: e_def)+ simp
  finally show ?thesis .
qed

lemma dec_val_product: "dec_val (product a b) = dec_val a * dec_val b"
  by (simp add: product_def dec_val_def power_int_add)

lemma strip_zeros_pow:
  "e + int k \<le> ideal \<Longrightarrow> strip_zeros (c * 10 ^ k) e ideal = strip_zeros c (e + int k) ideal"
proof (induction k arbitrary: e)
  case 0
  then show ?case by simp
next
  case (Suc k)
  have "strip_zeros (c * 10 ^ Suc k) e ideal = strip_zeros (c * 10 ^ k) (e + 1) ideal"
    using Suc.prems by (subst strip_zeros.simps) simp
  also have "\<dots> = strip_zeros c (e + 1 + int k) ideal"
    using Suc.prems by (intro Suc.IH) simp
  finally show ?case by (simp add: add.commute add.left_commute)
qed

lemma strip_zeros_val:
  "0 < c \<Longrightarrow> strip_zeros c e ideal = (c', e') \<Longrightarrow>
   0 < c' \<and> c' \<le> c \<and> e \<le> e' \<and> e' \<le> max e ideal \<and>
   (of_int c' :: rat) * 10 powi e' = of_int c * 10 powi e"
proof (induction c e ideal arbitrary: c' e' rule: strip_zeros.induct)
  case (1 q e ideal)
  show ?case
  proof (cases "e < ideal \<and> q mod 10 = 0")
    case True
    then have q: "q = (q div 10) * 10" by presburger
    have pos: "0 < q div 10" using "1.prems"(1) True by presburger
    have s: "strip_zeros (q div 10) (e + 1) ideal = (c', e')"
      using "1.prems"(2) True by (subst (asm) strip_zeros.simps) simp
    from "1.IH"[OF True pos s] have
      ih: "0 < c'" "c' \<le> q div 10" "e + 1 \<le> e'" "e' \<le> max (e + 1) ideal"
      "(of_int c' :: rat) * 10 powi e' = of_int (q div 10) * 10 powi (e + 1)"
      by auto
    have "(of_int (q div 10) :: rat) * 10 powi (e + 1) = of_int ((q div 10) * 10) * 10 powi e"
      by (simp add: power_int_add)
    also have "\<dots> = of_int q * 10 powi e" using q by simp
    finally show ?thesis using ih pos True by auto
  next
    case False
    then have "strip_zeros q e ideal = (q, e)" by (subst strip_zeros.simps) auto
    with "1.prems" show ?thesis by auto
  qed
qed

lemma ndigits_1000: "ndigits 1000 = 4"
  by (simp add: ndigits.simps)

text \<open>
  Dividing by \<^verbatim>\<open>Decimal('100.0')\<close> a decimal that fits the context, with room for the
  exponent of the quotient, is exact.
\<close>

lemma div_100_exact:
  assumes f: "fits a" and lo: "Etiny + 2 \<le> expo a" and hi: "expo a + 1 \<le> Etop"
  shows "\<exists>c. dec_div a (Decimal 1000 (-1)) = Inr c \<and> dec_val c = dec_val a / 100"
proof (cases "coeff a = 0")
  case True
  have "fits (Decimal 0 (expo a + 1))" using lo hi by (simp add: fits_def)
  then have "dec_fix (Decimal 0 (expo a + 1)) = Inr (Decimal 0 (expo a + 1))"
    by (rule dec_fix_fits)
  then have "dec_div a (Decimal 1000 (-1)) = Inr (Decimal 0 (expo a + 1))"
    using True by (simp add: dec_div_def)
  moreover have "dec_val (Decimal 0 (expo a + 1)) = dec_val a / 100"
    using True by (simp add: dec_val_def)
  ultimately show ?thesis by blast
next
  case False
  define x where "x = \<bar>coeff a\<bar>"
  define L where "L = ndigits x"
  have xpos: "0 < x" using False by (simp add: x_def)
  have xlt: "x < 10 ^ 28" using f by (simp add: fits_def prec_def x_def)
  have L28: "L \<le> 28" unfolding L_def using ndigits_le[of 28 x] xlt by simp
  have L1: "0 < L" unfolding L_def by (rule ndigits_pos)
  define k where "k = 30 - L"
  define shift where "shift = int (ndigits 1000) - int (ndigits x) + int prec + 1"
  have shift: "shift = int k + 3" "0 \<le> shift" "nat shift = k + 3"
    using L28 by (simp_all add: shift_def ndigits_1000 prec_def k_def L_def[symmetric])
  define e where "e = expo a - (-1) - shift"
  have e: "e + int k = expo a - 2" using shift by (simp add: e_def)
  have num: "x * 10 ^ nat shift = (x * 10 ^ k) * 1000"
    unfolding shift(3) by (simp add: power_add)
  have q: "(x * 10 ^ nat shift) div 1000 = x * 10 ^ k" and r: "(x * 10 ^ nat shift) mod 1000 = 0"
    unfolding num by simp_all
  obtain c' e' where s: "strip_zeros x (expo a - 2) (expo a + 1) = (c', e')"
    by (cases "strip_zeros x (expo a - 2) (expo a + 1)")
  have sz: "strip_zeros (x * 10 ^ k) e (expo a + 1) = (c', e')"
    using strip_zeros_pow[of e k "expo a + 1" x] e s by simp
  from strip_zeros_val[OF xpos s] have
    c': "0 < c'" "c' \<le> x" "expo a - 2 \<le> e'" "e' \<le> expo a + 1"
    "(of_int c' :: rat) * 10 powi e' = of_int x * 10 powi (expo a - 2)"
    by auto
  define res where "res = Decimal (sgn (coeff a) * c') e'"
  have "fits res" using c' xlt lo hi by (simp add: res_def fits_def prec_def abs_mult)
  then have fx: "dec_fix res = Inr res" by (rule dec_fix_fits)
  have d: "dec_div a (Decimal 1000 (-1)) = Inr res"
    using False q r sz[unfolded e_def] shift(2) fx
    by (simp add: dec_div_def Let_def x_def[symmetric] shift_def[symmetric] res_def)
  have sx: "sgn (coeff a) * x = coeff a"
    unfolding x_def by (rule mult_sgn_abs)
  have "dec_val res = of_int (sgn (coeff a)) * (of_int c' * 10 powi e')"
    by (simp add: res_def dec_val_def)
  also have "\<dots> = of_int (sgn (coeff a)) * (of_int x * 10 powi (expo a - 2))"
    using c'(5) by simp
  also have "\<dots> = of_int (sgn (coeff a) * x) * 10 powi (expo a - 2)"
    by simp
  also have "\<dots> = (of_int (coeff a) :: rat) * 10 powi (expo a - 2)"
    unfolding sx ..
  also have "\<dots> = dec_val a / 100"
    by (simp add: dec_val_def power_int_diff)
  finally show ?thesis using d by blast
qed

subsection \<open>The cost of a tier\<close>

lemma cost_not_applicable:
  "applies r row = Inr False \<Longrightarrow> PlanRate_cost r row = Inr (Decimal 0 (-1))"
  by (simp add: PlanRate_cost_def applies_def and_then_def)

lemma cost_raises:
  "applies r row = Inl e \<Longrightarrow> PlanRate_cost r row = Inl e"
  by (simp add: PlanRate_cost_def applies_def and_then_def)

lemma cost_exact:
  assumes ap: "applies r row = Inr True" and nr: "no_rounding r row"
  shows "\<exists>x. PlanRate_cost r row = Inr x \<and>
     dec_val x = dec_val (Hourly_Total row) *
       (dec_val (distribution r) + dec_val (capacity r) + dec_val (non_capacity r)) / 100"
proof -
  from nr have f1: "fits (aligned_sum (distribution r) (capacity r))" and f2: "fits (charges r)"
    and f3: "fits (product (Hourly_Total row) (charges r))"
    and lo: "Etiny + 2 \<le> expo (product (Hourly_Total row) (charges r))"
    and hi: "expo (product (Hourly_Total row) (charges r)) + 1 \<le> Etop"
    by (simp_all add: no_rounding_def)
  have s1: "dec_add (distribution r) (capacity r) = Inr (aligned_sum (distribution r) (capacity r))"
    using f1 by (simp add: dec_add_def dec_fix_fits)
  have s2: "dec_add (aligned_sum (distribution r) (capacity r)) (non_capacity r) = Inr (charges r)"
    unfolding dec_add_def charges_def[symmetric] using f2 by (rule dec_fix_fits)
  have m: "dec_mul (Hourly_Total row) (charges r) = Inr (product (Hourly_Total row) (charges r))"
    using f3 by (simp add: dec_mul_def dec_fix_fits)
  from div_100_exact[OF f3 lo hi] obtain x where
    x: "dec_div (product (Hourly_Total row) (charges r)) (Decimal 1000 (-1)) = Inr x"
    "dec_val x = dec_val (product (Hourly_Total row) (charges r)) / 100"
    by blast
  have "PlanRate_cost r row = Inr x"
    using ap x(1) by (simp add: PlanRate_cost_def applies_def[symmetric] and_then_def s1 s2 m)
  moreover have "dec_val x = dec_val (Hourly_Total row) *
       (dec_val (distribution r) + dec_val (capacity r) + dec_val (non_capacity r)) / 100"
    by (simp add: x(2) dec_val_product charges_def dec_val_aligned_sum)
  ultimately show ?thesis by blast
qed

lemma tiers_small:
  "small_charges First_17kWh" "small_charges After_17kWh"
  "small_charges Summer_Off_Peak" "small_charges Summer_On_Peak"
  "small_charges Winter_Off_Peak" "small_charges Winter_On_Peak"
  "small_charges Dynamic_Mid_Peak" "small_charges Dynamic_On_Peak"
  "small_charges Dynamic_Off_Peak_Weekday" "small_charges Dynamic_Off_Peak_Weekend"
  "small_charges EV_On_Peak" "small_charges EV_Off_Peak_Weekday" "small_charges EV_Off_Peak_Weekend"
  by (simp_all add: small_charges_def First_17kWh_def After_17kWh_def Summer_Off_Peak_def
      Summer_On_Peak_def Winter_Off_Peak_def
      Winter_On_Peak_def Dynamic_Mid_Peak_def Dynamic_On_Peak_def Dynamic_Off_Peak_Weekday_def
      Dynamic_Off_Peak_Weekend_def EV_On_Peak_def EV_Off_Peak_Weekday_def EV_Off_Peak_Weekend_def
      charges_def aligned_sum_def fits_def prec_def Etiny_def Etop_def Emax_def Emin_def)

lemma configured_small:
  assumes "p \<in> set plans" "r \<in> set (rates p)"
  shows "small_charges r"
proof -
  from assms have "r \<in> {First_17kWh, After_17kWh, Summer_Off_Peak, Summer_On_Peak,
      Winter_Off_Peak, Winter_On_Peak, Dynamic_Mid_Peak, Dynamic_On_Peak,
      Dynamic_Off_Peak_Weekday, Dynamic_Off_Peak_Weekend, EV_On_Peak, EV_Off_Peak_Weekday,
      EV_Off_Peak_Weekend}"
    by (auto simp: plans_def D1_def D1_2_def D1_9_def D1_8_def)
  then show ?thesis using tiers_small by blast
qed

lemma configured_no_rounding:
  assumes "p \<in> set plans" "r \<in> set (rates p)" "\<bar>coeff (Hourly_Total row)\<bar> < 10 ^ 23"
    "Etiny + 5 \<le> expo (Hourly_Total row)" "expo (Hourly_Total row) \<le> Etop + 2"
  shows "no_rounding r row"
proof -
  from configured_small[OF assms(1,2)] have f: "fits (aligned_sum (distribution r) (capacity r))"
    "fits (charges r)" and c: "\<bar>coeff (charges r)\<bar> < 100000" and e: "expo (charges r) = - 3"
    by (simp_all add: small_charges_def)
  have "\<bar>coeff (Hourly_Total row)\<bar> * \<bar>coeff (charges r)\<bar> < 10 ^ 23 * 100000"
    using assms(3) c by (intro mult_strict_mono) auto
  then have "fits (product (Hourly_Total row) (charges r))"
    using assms(4,5) e by (simp add: fits_def product_def prec_def abs_mult)
  moreover have "Etiny + 2 \<le> expo (product (Hourly_Total row) (charges r))"
    "expo (product (Hourly_Total row) (charges r)) + 1 \<le> Etop"
    using assms(4,5) e by (simp_all add: product_def)
  ultimately show ?thesis using f by (simp add: no_rounding_def)
qed

text \<open>
  C5. The cost of a tier should be 0 when the tier does not apply and otherwise the
  hourly usage times the sum of the three charges divided by 100, exactly. The context of
  the decimal module keeps 28 significant digits: for an hourly usage of
  1.000000000000000000000000001 the product with the charges 6.611 + 4.500 + 4.176 has 32
  digits and is rounded, and the cost of the first tier of D1 is not the exact value.
\<close>

theorem cost_is_rounded_beyond_28_digits:
  "PlanRate_cost First_17kWh
     ((csv_row 2023 7 10 1 0 (Decimal 1000000000000000000000000001 (-27)))
        \<lparr>Daily_Cumulative := Decimal 1000000000000000000000000001 (-27)\<rparr>) =
     Inr (Decimal 1528700000000000000000000002 (-28)) \<and>
   dec_val (Decimal 1528700000000000000000000002 (-28)) \<noteq>
     dec_val (Decimal 1000000000000000000000000001 (-27)) *
       (dec_val (Decimal 6611 (-3)) + dec_val (Decimal 4500 (-3)) + dec_val (Decimal 4176 (-3)))
       / 100"
proof
  show "PlanRate_cost First_17kWh
     ((csv_row 2023 7 10 1 0 (Decimal 1000000000000000000000000001 (-27)))
        \<lparr>Daily_Cumulative := Decimal 1000000000000000000000000001 (-27)\<rparr>) =
     Inr (Decimal 1528700000000000000000000002 (-28))"
    by code_simp
next
  show "dec_val (Decimal 1528700000000000000000000002 (-28)) \<noteq>
     dec_val (Decimal 1000000000000000000000000001 (-27)) *
       (dec_val (Decimal 6611 (-3)) + dec_val (Decimal 4500 (-3)) + dec_val (Decimal 4176 (-3)))
       / 100"
    by (simp add: dec_val_def)
qed

text \<open>
  C5, as the program has it. The cost of a tier is \<^verbatim>\<open>Decimal('0.0')\<close> when the tier does
  not apply, and the exception of the tier's predicate when that raises. When the tier
  applies and nothing is rounded on the way, the cost is exactly the hourly usage times the
  sum of the charges divided by 100. Nothing is rounded when the sum of the distribution
  and capacity charges, the sum of the three charges and the product of that sum with the
  hourly usage each have a coefficient of at most 28 digits and an exponent from
  \<open>Etiny = -1000026\<close> to \<open>Etop = 999972\<close>, the exponent of the product being at least
  \<open>Etiny + 2\<close> and at most \<open>Etop - 1\<close>; this is so for every configured tier and every
  hourly usage with a coefficient of at most 23 digits and an exponent from -1000021 to
  999974. An hourly usage of 2.5 with the charges 6.611, 4.500 and 4.176 costs exactly
  0.382175. An hourly usage of 1.000000000000000000000000001 with the same charges costs
  0.1528700000000000000000000002, and for an hourly usage of \<^verbatim>\<open>1E+999999\<close> the cost of the
  first tier of D1.2 at 1:00 AM on 07/10/2023 is the exception \<^verbatim>\<open>decimal.Overflow\<close>.
\<close>

theorem cost_is_exact_within_precision:
  "(applies r row = Inr False \<longrightarrow> PlanRate_cost r row = Inr (Decimal 0 (-1))) \<and>
   dec_val (Decimal 0 (-1)) = 0 \<and>
   (applies r row = Inl e \<longrightarrow> PlanRate_cost r row = Inl e) \<and>
   (applies r row = Inr True \<and> no_rounding r row \<longrightarrow>
      (\<exists>x. PlanRate_cost r row = Inr x \<and>
           dec_val x = dec_val (Hourly_Total row) *
             (dec_val (distribution r) + dec_val (capacity r) + dec_val (non_capacity r)) / 100)) \<and>
   no_rounding r row =
     (fits (aligned_sum (distribution r) (capacity r)) \<and>
      fits (aligned_sum (aligned_sum (distribution r) (capacity r)) (non_capacity r)) \<and>
      fits (product (Hourly_Total row)
              (aligned_sum (aligned_sum (distribution r) (capacity r)) (non_capacity r))) \<and>
      Etiny + 2 \<le> expo (Hourly_Total row) +
         expo (aligned_sum (aligned_sum (distribution r) (capacity r)) (non_capacity r)) \<and>
      expo (Hourly_Total row) +
         expo (aligned_sum (aligned_sum (distribution r) (capacity r)) (non_capacity r)) \<le> Etop - 1) \<and>
   fits d = (\<bar>coeff d\<bar> < 10 ^ 28 \<and> Etiny \<le> expo d \<and> expo d \<le> Etop) \<and>
   Etiny = - 1000026 \<and> Etop = 999972 \<and>
   (p \<in> set plans \<and> r \<in> set (rates p) \<and> \<bar>coeff (Hourly_Total row)\<bar> < 10 ^ 23 \<and>
    - 1000021 \<le> expo (Hourly_Total row) \<and> expo (Hourly_Total row) \<le> 999974 \<longrightarrow>
      no_rounding r row) \<and>
   PlanRate_cost First_17kWh
     ((csv_row 2023 7 10 1 0 (Decimal 25 (-1)))\<lparr>Daily_Cumulative := Decimal 25 (-1)\<rparr>) =
     Inr (Decimal 382175 (-6)) \<and>
   dec_val (Decimal 382175 (-6)) = 382175 / 1000000 \<and>
   PlanRate_cost First_17kWh
     ((csv_row 2023 7 10 1 0 (Decimal 1000000000000000000000000001 (-27)))
        \<lparr>Daily_Cumulative := Decimal 1000000000000000000000000001 (-27)\<rparr>) =
     Inr (Decimal 1528700000000000000000000002 (-28)) \<and>
   PlanRate_cost Summer_Off_Peak (csv_row 2023 7 10 1 0 (Decimal 1 999999)) = Inl Overflow"
proof (intro conjI impI)
  assume "applies r row = Inr False"
  then show "PlanRate_cost r row = Inr (Decimal 0 (-1))" by (rule cost_not_applicable)
next
  show "dec_val (Decimal 0 (-1)) = 0" by (simp add: dec_val_def)
next
  assume "applies r row = Inl e"
  then show "PlanRate_cost r row = Inl e" by (rule cost_raises)
next
  assume "applies r row = Inr True \<and> no_rounding r row"
  then show "\<exists>x. PlanRate_cost r row = Inr x \<and>
      dec_val x = dec_val (Hourly_Total row) *
        (dec_val (distribution r) + dec_val (capacity r) + dec_val (non_capacity r)) / 100"
    using cost_exact by blast
next
  show "no_rounding r row =
     (fits (aligned_sum (distribution r) (capacity r)) \<and>
      fits (aligned_sum (aligned_sum (distribution r) (capacity r)) (non_capacity r)) \<and>
      fits (product (Hourly_Total row)
              (aligned_sum (aligned_sum (distribution r) (capacity r)) (non_capacity r))) \<and>
      Etiny + 2 \<le> expo (Hourly_Total row) +
         expo (aligned_sum (aligned_sum (distribution r) (capacity r)) (non_capacity r)) \<and>
      expo (Hourly_Total row) +
         expo (aligned_sum (aligned_sum (distribution r) (capacity r)) (non_capacity r)) \<le> Etop - 1)"
    by (auto simp: no_rounding_def charges_def product_def)
next
  show "fits d = (\<bar>coeff d\<bar> < 10 ^ 28 \<and> Etiny \<le> expo d \<and> expo d \<le> Etop)"
    by (simp add: fits_def prec_def)
next
  show "Etiny = - 1000026" by (simp add: Etiny_def Emin_def prec_def)
next
  show "Etop = 999972" by (simp add: Etop_def Emax_def prec_def)
next
  assume "p \<in> set plans \<and> r \<in> set (rates p) \<and> \<bar>coeff (Hourly_Total row)\<bar> < 10 ^ 23 \<and>
    - 1000021 \<le> expo (Hourly_Total row) \<and> expo (Hourly_Total row) \<le> 999974"
  then show "no_rounding r row"
    by (intro configured_no_rounding[of p])
       (simp_all add: Etiny_def Etop_def Emin_def Emax_def prec_def)
next
  show "PlanRate_cost First_17kWh
     ((csv_row 2023 7 10 1 0 (Decimal 25 (-1)))\<lparr>Daily_Cumulative := Decimal 25 (-1)\<rparr>) =
     Inr (Decimal 382175 (-6))"
    by code_simp
next
  show "dec_val (Decimal 382175 (-6)) = 382175 / 1000000" by (simp add: dec_val_def)
next
  show "PlanRate_cost First_17kWh
     ((csv_row 2023 7 10 1 0 (Decimal 1000000000000000000000000001 (-27)))
        \<lparr>Daily_Cumulative := Decimal 1000000000000000000000000001 (-27)\<rparr>) =
     Inr (Decimal 1528700000000000000000000002 (-28))"
    by code_simp
next
  show "PlanRate_cost Summer_Off_Peak (csv_row 2023 7 10 1 0 (Decimal 1 999999)) = Inl Overflow"
    by code_simp
qed

theorem cost_is_exact_within_precision_witness:
  "applies After_17kWh
     ((csv_row 2023 7 10 1 0 (Decimal 25 (-1)))\<lparr>Daily_Cumulative := Decimal 25 (-1)\<rparr>) = Inr False \<and>
   PlanRate_cost After_17kWh
     ((csv_row 2023 7 10 1 0 (Decimal 25 (-1)))\<lparr>Daily_Cumulative := Decimal 25 (-1)\<rparr>) =
     Inr (Decimal 0 (-1)) \<and>
   applies First_17kWh
     ((csv_row 2023 7 10 1 0 (Decimal 25 (-1)))\<lparr>Daily_Cumulative := Decimal 25 (-1)\<rparr>) = Inr True \<and>
   D1 \<in> set plans \<and> First_17kWh \<in> set (rates D1) \<and>
   no_rounding First_17kWh
     ((csv_row 2023 7 10 1 0 (Decimal 25 (-1)))\<lparr>Daily_Cumulative := Decimal 25 (-1)\<rparr>) \<and>
   (\<exists>x. PlanRate_cost First_17kWh
          ((csv_row 2023 7 10 1 0 (Decimal 25 (-1)))\<lparr>Daily_Cumulative := Decimal 25 (-1)\<rparr>) = Inr x \<and>
        dec_val x = 5 / 2 * (6611 / 1000 + 4500 / 1000 + 4176 / 1000) / 100) \<and>
   applies Winter_Off_Peak (csv_row 9999 12 15 5 0 (Decimal 25 (-1))) = Inl ValueError \<and>
   PlanRate_cost Winter_Off_Peak (csv_row 9999 12 15 5 0 (Decimal 25 (-1))) = Inl ValueError"
proof -
  let ?row = "(csv_row 2023 7 10 1 0 (Decimal 25 (-1)))\<lparr>Daily_Cumulative := Decimal 25 (-1)\<rparr>"
  let ?late = "csv_row 9999 12 15 5 0 (Decimal 25 (-1))"
  have no: "applies After_17kWh ?row = Inr False"
    by (simp add: applies_def PlanRate_is_rate_def RateCondition_is_rate_def After_17kWh_def
        cumulative_gt_17_def dec_gt_def csv_row_def)
  have yes: "applies First_17kWh ?row = Inr True"
    by (simp add: applies_def PlanRate_is_rate_def RateCondition_is_rate_def First_17kWh_def
        cumulative_le_17_def dec_le_def csv_row_def)
  have late: "applies Winter_Off_Peak ?late = Inl ValueError"
    by code_simp
  have mem: "D1 \<in> set plans" "First_17kWh \<in> set (rates D1)"
    by (simp_all add: plans_def D1_def)
  have small: "\<bar>coeff (Hourly_Total ?row)\<bar> < 10 ^ 23" "- 1000021 \<le> expo (Hourly_Total ?row)"
    "expo (Hourly_Total ?row) \<le> 999974"
    by (simp_all add: csv_row_def)
  from cost_is_exact_within_precision[of After_17kWh ?row] no
  have c0: "PlanRate_cost After_17kWh ?row = Inr (Decimal 0 (-1))" by blast
  from cost_is_exact_within_precision[of Winter_Off_Peak ?late ValueError] late
  have c1: "PlanRate_cost Winter_Off_Peak ?late = Inl ValueError" by blast
  from cost_is_exact_within_precision[of First_17kWh ?row _ _ D1] mem small
  have nr: "no_rounding First_17kWh ?row" by blast
  from cost_is_exact_within_precision[of First_17kWh ?row] yes nr
  obtain x where x: "PlanRate_cost First_17kWh ?row = Inr x"
    "dec_val x = dec_val (Hourly_Total ?row) *
       (dec_val (distribution First_17kWh) + dec_val (capacity First_17kWh) +
        dec_val (non_capacity First_17kWh)) / 100"
    by blast
  have "dec_val x = 5 / 2 * (6611 / 1000 + 4500 / 1000 + 4176 / 1000) / 100"
    unfolding x(2) by (simp add: First_17kWh_def csv_row_def dec_val_def)
  with x(1) have "\<exists>x. PlanRate_cost First_17kWh ?row = Inr x \<and>
      dec_val x = 5 / 2 * (6611 / 1000 + 4500 / 1000 + 4176 / 1000) / 100"
    by blast
  with no c0 yes mem nr late c1 show ?thesis by (intro conjI)
qed

subsection \<open>Day windows\<close>

text \<open>
  What the two day predicates compute, for whole ranges of timestamps: the winter window
  matches no day of January to October, and on June 1 the summer window matches a reading
  at midnight only.
\<close>

lemma ymd2ord_before_november:
  assumes "1 \<le> m" "m \<le> 10" "d \<le> 31"
  shows "ymd2ord y m d < ymd2ord y 11 1"
proof -
  from assms(1,2) have "m = 1 \<or> m = 2 \<or> m = 3 \<or> m = 4 \<or> m = 5 \<or> m = 6 \<or> m = 7 \<or>
      m = 8 \<or> m = 9 \<or> m = 10" by arith
  then show ?thesis
    using assms(3) by (elim disjE) (simp_all add: ymd2ord_def days_before_month_def)
qed

lemma winter_window_misses_january_to_october:
  assumes "valid_time (Timestamp row)" "valid_date (Timestamp row)"
    "1 \<le> year (Timestamp row)" "year (Timestamp row) < 9999" "month (Timestamp row) \<le> 10"
  shows "day_1101_0531 row = Inr False"
proof -
  define t where "t = Timestamp row"
  let ?floor = "t\<lparr>hour := 0, minute := 0, second := 0, microsecond := 0\<rparr>"
  let ?start = "t\<lparr>month := 11, day := 1\<rparr>"
  have a: "valid_time t" "valid_date t" "1 \<le> year t" "year t < 9999" "month t \<le> 10"
    using assms by (simp_all add: t_def)
  have o: "ymd2ord (year t) (month t) (day t) + 1 \<le> ymd2ord (year t) 11 1"
    using ymd2ord_before_november[of "month t" "day t" "year t"] a(2,5)
    by (simp add: valid_date_def)
  have v: "valid_time ?floor" "valid_date ?floor" "valid_time ?start" "valid_date ?start"
    using a by (simp_all add: valid_time_def valid_date_def)
  have "posix_us ?floor + 2000000 \<le> posix_us ?start"
    using o a(1) by (simp add: posix_us_eq valid_time_def)
  moreover have "- 300000000000000000 < posix_us ?floor"
    using posix_us_bounds(1)[OF v(1,2)] a(3,4) by simp
  moreover have "posix_us ?start < 300000000000000000"
    using posix_us_bounds(2)[OF v(3,4)] a(3,4) by simp
  ultimately have "float_seconds (posix_us ?floor) < float_seconds (posix_us ?start)"
    by (rule float_seconds_gap)
  then show ?thesis
    using a(4,5)
    by (simp add: day_1101_0531_def floor_day_def ceil_day_def span_day_def shift_years_1_def
        replace_month_day_def and_then_def is_between_def float_timestamp_def t_def[symmetric])
qed

lemma summer_window_on_june_first:
  assumes "valid_time (Timestamp row)" "1 \<le> year (Timestamp row)" "year (Timestamp row) \<le> 9999"
    "month (Timestamp row) = 6" "day (Timestamp row) = 1"
    "second (Timestamp row) = 0" "microsecond (Timestamp row) = 0"
  shows "day_0601_1031 row = Inr (hour (Timestamp row) = 0 \<and> minute (Timestamp row) = 0)"
proof -
  define t where "t = Timestamp row"
  let ?floor = "t\<lparr>hour := 0, minute := 0, second := 0, microsecond := 0\<rparr>"
  let ?hi = "t\<lparr>month := 10, day := 31, hour := 23, minute := 59, second := 59,
               microsecond := 999999\<rparr>"
  have a: "valid_time t" "1 \<le> year t" "year t \<le> 9999" "month t = 6" "day t = 1"
    "second t = 0" "microsecond t = 0"
    using assms by (simp_all add: t_def)
  have st: "t\<lparr>month := 6, day := 1\<rparr> = t" using a(4,5) by simp
  have v: "valid_time ?floor" "valid_date ?floor" "valid_date t"
    using a by (simp_all add: valid_time_def valid_date_def)
  have "posix_us ?floor \<le> posix_us ?hi"
    using a(4,5) by (simp add: posix_us_eq ymd2ord_def days_before_month_def)
  then have e: "float_seconds (posix_us ?floor) \<le> float_seconds (posix_us ?hi)"
    by (rule float_seconds_mono)
  have s: "(float_seconds (posix_us t) \<le> float_seconds (posix_us ?floor)) =
      (hour t = 0 \<and> minute t = 0)"
  proof (cases "hour t = 0 \<and> minute t = 0")
    case True
    then have "?floor = t" using a(6,7) by simp
    then show ?thesis using True by simp
  next
    case False
    then have "posix_us ?floor + 2000000 \<le> posix_us t"
      using a(1) by (auto simp: posix_us_eq valid_time_def)
    moreover have "- 300000000000000000 < posix_us ?floor"
      using posix_us_bounds(1)[OF v(1,2)] a(2,3) by simp
    moreover have "posix_us t < 300000000000000000"
      using posix_us_bounds(2)[OF a(1) v(3) a(2,3)] by simp
    ultimately have "float_seconds (posix_us ?floor) < float_seconds (posix_us t)"
      by (rule float_seconds_gap)
    then show ?thesis using False by simp
  qed
  have "day_0601_1031 row = Inr (float_seconds (posix_us t) \<le> float_seconds (posix_us ?floor) \<and>
      float_seconds (posix_us ?floor) \<le> float_seconds (posix_us ?hi))"
    using a(4) st
    by (simp add: day_0601_1031_def floor_day_def ceil_day_def span_day_def
        replace_month_day_def and_then_def is_between_def float_timestamp_def t_def[symmetric])
  then show ?thesis using e s by (simp add: t_def)
qed

text \<open>
  C2. The winter window Nov 1 - May 31 should match Dec 15 of a year and Mar 1 of the
  next, and not Jul 1. The predicate of the program anchors its start at Nov 1 of the
  timestamp's own year and its end at May 31 of the year after: it matches 12/15/2023, it
  does not match 07/01/2023, and it does not match 03/01/2024 either, so that no tier of
  D1.2 matches that reading.
\<close>

theorem winter_window_misses_march:
  "day_1101_0531 (csv_row 2023 12 15 5 0 (Decimal 10 (-1))) = Inr True \<and>
   day_1101_0531 (csv_row 2023 7 1 5 0 (Decimal 10 (-1))) = Inr False \<and>
   day_1101_0531 (csv_row 2024 3 1 5 0 (Decimal 10 (-1))) = Inr False \<and>
   map_sum id (map_option PlanRate.name)
     (fst (match_rate D1_2 (csv_row 2024 3 1 5 0 (Decimal 10 (-1))))) = Inr None"
  by code_simp

text \<open>
  C7. Every window should match a reading that lands on one of its boundary dates or
  hours. The day predicates compare the timestamp floored to its day with a start that
  \<^verbatim>\<open>replace(month=.., day=..)\<close> leaves at the timestamp's own time of day: the summer window
  matches 06/01/2023 at 12:00 AM and 10/31/2023 at 11:00 PM, but not 06/01/2023 at
  5:00 AM, and the winter window does not match 11/01/2023 at 5:00 AM; no tier of D1.2
  matches either of these two readings.
\<close>

theorem start_date_matches_at_midnight_only:
  "day_0601_1031 (csv_row 2023 6 1 0 0 (Decimal 10 (-1))) = Inr True \<and>
   day_0601_1031 (csv_row 2023 10 31 23 0 (Decimal 10 (-1))) = Inr True \<and>
   day_0601_1031 (csv_row 2023 6 1 5 0 (Decimal 10 (-1))) = Inr False \<and>
   day_1101_0531 (csv_row 2023 11 1 0 0 (Decimal 10 (-1))) = Inr True \<and>
   day_1101_0531 (csv_row 2023 11 1 5 0 (Decimal 10 (-1))) = Inr False \<and>
   map_sum id (map_option PlanRate.name)
     (fst (match_rate D1_2 (csv_row 2023 6 1 5 0 (Decimal 10 (-1))))) = Inr None \<and>
   map_sum id (map_option PlanRate.name)
     (fst (match_rate D1_2 (csv_row 2023 11 1 5 0 (Decimal 10 (-1))))) = Inr None"
  by code_simp

subsection \<open>A reading no tier matches\<close>

lemma annotate_plan_no_tier:
  "fst (match_rate p row) = Inr None \<Longrightarrow> fst (annotate_plan p row) = Inl AttributeError"
  by (cases "match_rate p row") (simp add: annotate_plan_def)

lemma cost_no_tier:
  "fst (match_rate p row) = Inr None \<Longrightarrow> fst (PricePlan_cost p row) = Inr (Decimal 0 (-1))"
  by (cases "match_rate p row") (simp add: PricePlan_cost_def)

text \<open>
  C1. When no rate tier of a tariff matches a reading, processing should go on: a
  diagnostic, a cost of exact zero, an empty tier field, and the remaining tariffs and rows
  processed. The program does the first two and then stops: for the reading of
  01/15/2023 5:00 AM no tier of D1.2 matches, \<^verbatim>\<open>match_rate\<close> prints its diagnostics and
  returns \<^verbatim>\<open>None\<close>, \<^verbatim>\<open>cost\<close> is \<^verbatim>\<open>Decimal('0.0')\<close>, and the statement that annotates
  the rate name reads \<^verbatim>\<open>.name\<close> of \<^verbatim>\<open>None\<close>: the loop ends in \<^verbatim>\<open>AttributeError\<close>.
\<close>

theorem no_matching_tier_ends_the_run:
  "map_sum id (map_option PlanRate.name)
     (fst (match_rate D1_2
        ((csv_row 2023 1 15 5 0 (Decimal 10 (-1)))\<lparr>Daily_Cumulative := Decimal 10 (-1)\<rparr>))) =
     Inr None \<and>
   snd (match_rate D1_2
        ((csv_row 2023 1 15 5 0 (Decimal 10 (-1)))\<lparr>Daily_Cumulative := Decimal 10 (-1)\<rparr>)) =
     [Could_not_find_rate ''D1.2''
        ((csv_row 2023 1 15 5 0 (Decimal 10 (-1)))\<lparr>Daily_Cumulative := Decimal 10 (-1)\<rparr>),
      No_match_for ''Timestamp'' ''06/01 <= day <= 10/31'',
      No_match_for ''Timestamp'' ''06/01 <= day <= 10/31'',
      No_match_for ''Timestamp'' ''11/01 <= day <= 5/31'',
      No_match_for ''Timestamp'' ''11/01 <= day <= 5/31''] \<and>
   fst (PricePlan_cost D1_2
        ((csv_row 2023 1 15 5 0 (Decimal 10 (-1)))\<lparr>Daily_Cumulative := Decimal 10 (-1)\<rparr>)) =
     Inr (Decimal 0 (-1)) \<and>
   fst (annotate_plan D1_2
        ((csv_row 2023 1 15 5 0 (Decimal 10 (-1)))\<lparr>Daily_Cumulative := Decimal 10 (-1)\<rparr>)) =
     Inl AttributeError \<and>
   fst (process_meter plans [csv_row 2023 1 15 5 0 (Decimal 10 (-1))]) = Inl AttributeError"
  by code_simp

subsection \<open>Construction\<close>

text \<open>
  C9. A tariff with zero rate tiers is not rejected at construction: the constructor of
  the dataclass stores any list of rates.
\<close>

theorem empty_plan_is_constructed:
  "PricePlan_init ''D0'' [] (Decimal 750 (-2)) =
     Inr \<lparr>PricePlan.name = ''D0'', rates = [], service_charge = Decimal 750 (-2)\<rparr>"
  by (simp add: PricePlan_init_def)

text \<open>
  C9, as the program has it. A tariff with zero rate tiers is accepted at construction;
  it resolves no reading: for every row \<^verbatim>\<open>match_rate\<close> prints that it could not find a
  rate and returns \<^verbatim>\<open>None\<close>, and \<^verbatim>\<open>cost\<close> is \<^verbatim>\<open>Decimal('0.0')\<close>.
\<close>

theorem empty_plan_matches_nothing:
  "PricePlan_init n [] sc = Inr \<lparr>PricePlan.name = n, rates = [], service_charge = sc\<rparr> \<and>
   match_rate \<lparr>PricePlan.name = n, rates = [], service_charge = sc\<rparr> row =
     (Inr None, [Could_not_find_rate n row]) \<and>
   PricePlan_cost \<lparr>PricePlan.name = n, rates = [], service_charge = sc\<rparr> row =
     (Inr (Decimal 0 (-1)), [Could_not_find_rate n row])"
  by (simp add: PricePlan_init_def match_rate_def PricePlan_cost_def)

subsection \<open>The annotations of a row\<close>

lemma conditions_loop_cong:
  "\<forall>c\<in>set cs. match c row' = match c row \<Longrightarrow>
   conditions_loop cs row' debug = conditions_loop cs row debug"
  by (induction cs) (auto simp: RateCondition_is_rate_def split: sum.splits prod.splits)

lemma first_rate_cong:
  "\<forall>r\<in>set rs. \<forall>c\<in>set (conditions r). match c row' = match c row \<Longrightarrow>
   first_rate rs row' = first_rate rs row"
proof (induction rs)
  case Nil
  show ?case by simp
next
  case (Cons r rs)
  have c: "conditions_loop (conditions r) row' False = conditions_loop (conditions r) row False"
    using Cons.prems by (intro conditions_loop_cong) simp
  have ih: "first_rate rs row' = first_rate rs row" using Cons.prems by (intro Cons.IH) simp
  show ?case unfolding first_rate.simps PlanRate_is_rate_def c ih ..
qed

lemma blind_match_rate:
  assumes "reads_no_annotation p"
  shows "fst (match_rate p (row\<lparr>annotations := a\<rparr>)) = fst (match_rate p row)"
  unfolding match_rate_fst using assms
  by (intro first_rate_cong) (simp add: reads_no_annotation_def)

lemma blind_cost:
  assumes "reads_no_annotation p" "r \<in> set (rates p)"
  shows "PlanRate_cost r (row\<lparr>annotations := a\<rparr>) = PlanRate_cost r row"
proof -
  have "conditions_loop (conditions r) (row\<lparr>annotations := a\<rparr>) False =
      conditions_loop (conditions r) row False"
    using assms by (intro conditions_loop_cong) (simp add: reads_no_annotation_def)
  moreover have "Hourly_Total (row\<lparr>annotations := a\<rparr>) = Hourly_Total row" by simp
  ultimately show ?thesis
    unfolding PlanRate_cost_def PlanRate_is_rate_def by (simp only:)
qed

lemma match_rate_in_rates:
  "fst (match_rate p row) = Inr (Some r) \<Longrightarrow> r \<in> set (rates p)"
  unfolding match_rate_fst first_rate_Some by auto

lemma annotate_plan_result:
  assumes blind: "reads_no_annotation p"
    and ok: "fst (annotate_plan p row) = Inr row'"
  shows "\<exists>r c. fst (match_rate p row) = Inr (Some r) \<and> PlanRate_cost r row = Inr c \<and>
     row' = row\<lparr>annotations :=
              AList.update (PricePlan.name p @ '' Cost'') (Dec c)
                (AList.update (PricePlan.name p @ '' Rate'') (Str (PlanRate.name r))
                   (annotations row))\<rparr>"
proof -
  from ok obtain r where r: "fst (match_rate p row) = Inr (Some r)"
    by (cases "match_rate p row")
       (auto simp: annotate_plan_def split: sum.splits option.splits)
  define row1 where "row1 = row\<lparr>annotations :=
      AList.update (PricePlan.name p @ '' Rate'') (Str (PlanRate.name r)) (annotations row)\<rparr>"
  have m1: "fst (match_rate p row1) = Inr (Some r)"
    unfolding row1_def using blind_match_rate[OF blind] r by simp
  have c1: "PlanRate_cost r row1 = PlanRate_cost r row"
    unfolding row1_def using blind_cost[OF blind match_rate_in_rates[OF r]] by simp
  have pc: "fst (PricePlan_cost p row1) = PlanRate_cost r row"
    using m1 c1 by (cases "match_rate p row1") (auto simp: PricePlan_cost_def)
  from ok r pc obtain c where c: "PlanRate_cost r row = Inr c"
    and row': "row' = row1\<lparr>annotations :=
        AList.update (PricePlan.name p @ '' Cost'') (Dec c) (annotations row1)\<rparr>"
    by (cases "match_rate p row"; cases "PricePlan_cost p row1"; cases "PlanRate_cost r row")
       (auto simp: annotate_plan_def row1_def Let_def)
  show ?thesis using r c row' by (auto simp: row1_def)
qed

lemma plans_blind: "\<forall>p\<in>set plans. reads_no_annotation p"
  by (simp add: plans_def reads_no_annotation_def D1_def D1_2_def D1_9_def D1_8_def
      First_17kWh_def After_17kWh_def Summer_Off_Peak_def Summer_On_Peak_def Winter_Off_Peak_def
      Winter_On_Peak_def Dynamic_Mid_Peak_def Dynamic_On_Peak_def Dynamic_Off_Peak_Weekday_def
      Dynamic_Off_Peak_Weekend_def EV_On_Peak_def EV_Off_Peak_Weekday_def EV_Off_Peak_Weekend_def
      cumulative_le_17_def cumulative_gt_17_def day_0601_1031_def day_1101_0531_def
      hour_19_to_10_def hour_11_to_18_def monday_to_friday_def saturday_to_sunday_def
      hour_19_to_22_or_7_to_14_def hour_15_to_18_def hour_23_to_6_def hour_9_to_22_def
      hour_23_to_8_def)

lemma annotate_Cons_Inr:
  assumes "fst (annotate (p # ps) row) = Inr row'"
  obtains r1 where "fst (annotate_plan p row) = Inr r1" "fst (annotate ps r1) = Inr row'"
  using assms by (auto split: prod.splits sum.splits)

lemma annotate_shape:
  assumes "\<forall>p\<in>set ps. reads_no_annotation p" "fst (annotate ps row) = Inr row'"
  shows "\<exists>a. row' = row\<lparr>annotations := a\<rparr> \<and>
     (\<forall>k. k \<notin> (\<lambda>p. PricePlan.name p @ '' Rate'') ` set ps \<and>
          k \<notin> (\<lambda>p. PricePlan.name p @ '' Cost'') ` set ps \<longrightarrow>
          map_of a k = map_of (annotations row) k)"
  using assms
proof (induction ps arbitrary: row)
  case Nil
  then show ?case by (intro exI[of _ "annotations row"]) simp
next
  case (Cons p ps)
  from Cons.prems(2) obtain r1 where r1: "fst (annotate_plan p row) = Inr r1"
    and rest: "fst (annotate ps r1) = Inr row'"
    by (rule annotate_Cons_Inr)
  have bp: "reads_no_annotation p" and bps: "\<forall>q\<in>set ps. reads_no_annotation q"
    using Cons.prems(1) by auto
  from annotate_plan_result[OF bp r1] obtain r :: PlanRate and c where
    r1eq: "r1 = row\<lparr>annotations :=
              AList.update (PricePlan.name p @ '' Cost'') (Dec c)
                (AList.update (PricePlan.name p @ '' Rate'') (Str (PlanRate.name r))
                   (annotations row))\<rparr>"
    by blast
  from Cons.IH[OF bps rest] obtain a where
    a: "row' = r1\<lparr>annotations := a\<rparr>"
    "\<forall>k. k \<notin> (\<lambda>p. PricePlan.name p @ '' Rate'') ` set ps \<and>
          k \<notin> (\<lambda>p. PricePlan.name p @ '' Cost'') ` set ps \<longrightarrow>
          map_of a k = map_of (annotations r1) k"
    by auto
  show ?case
  proof (intro exI[of _ a] conjI allI impI)
    show "row' = row\<lparr>annotations := a\<rparr>" using a(1) r1eq by simp
    fix k
    assume k: "k \<notin> (\<lambda>p. PricePlan.name p @ '' Rate'') ` set (p # ps) \<and>
          k \<notin> (\<lambda>p. PricePlan.name p @ '' Cost'') ` set (p # ps)"
    then have "map_of a k = map_of (annotations r1) k" using a(2) by auto
    also have "\<dots> = map_of (annotations row) k"
      using k by (simp add: r1eq update_conv')
    finally show "map_of a k = map_of (annotations row) k" .
  qed
qed

lemma key_neq:
  "(n :: string) @ '' Rate'' \<noteq> n' @ '' Cost''" "n @ '' Cost'' \<noteq> n' @ '' Rate''"
  by (auto simp: append_eq_append_conv)

lemma annotate_consistent:
  assumes "\<forall>p\<in>set ps. reads_no_annotation p" "distinct (map PricePlan.name ps)"
    "fst (annotate ps row) = Inr row'"
  shows "\<forall>p\<in>set ps. \<exists>r c. fst (match_rate p row) = Inr (Some r) \<and> PlanRate_cost r row = Inr c \<and>
     map_of (annotations row') (PricePlan.name p @ '' Rate'') = Some (Str (PlanRate.name r)) \<and>
     map_of (annotations row') (PricePlan.name p @ '' Cost'') = Some (Dec c)"
  using assms
proof (induction ps arbitrary: row)
  case Nil
  then show ?case by simp
next
  case (Cons p ps)
  have blind_p: "reads_no_annotation p" and blind_ps: "\<forall>q\<in>set ps. reads_no_annotation q"
    using Cons.prems(1) by auto
  have dist: "distinct (map PricePlan.name ps)" and
    fresh: "PricePlan.name p \<notin> PricePlan.name ` set ps"
    using Cons.prems(2) by auto
  from Cons.prems(3) obtain r1 where r1: "fst (annotate_plan p row) = Inr r1"
    and rest: "fst (annotate ps r1) = Inr row'"
    by (rule annotate_Cons_Inr)
  from annotate_plan_result[OF blind_p r1] obtain r c where
    r: "fst (match_rate p row) = Inr (Some r)" and c: "PlanRate_cost r row = Inr c" and
    r1eq: "r1 = row\<lparr>annotations :=
              AList.update (PricePlan.name p @ '' Cost'') (Dec c)
                (AList.update (PricePlan.name p @ '' Rate'') (Str (PlanRate.name r))
                   (annotations row))\<rparr>"
    by auto
  from annotate_shape[OF blind_ps rest] obtain a where
    a: "row' = r1\<lparr>annotations := a\<rparr>"
    "\<forall>k. k \<notin> (\<lambda>p. PricePlan.name p @ '' Rate'') ` set ps \<and>
          k \<notin> (\<lambda>p. PricePlan.name p @ '' Cost'') ` set ps \<longrightarrow>
          map_of a k = map_of (annotations r1) k"
    by auto
  have kr: "PricePlan.name p @ '' Rate'' \<notin> (\<lambda>p. PricePlan.name p @ '' Rate'') ` set ps"
    "PricePlan.name p @ '' Rate'' \<notin> (\<lambda>p. PricePlan.name p @ '' Cost'') ` set ps"
    "PricePlan.name p @ '' Cost'' \<notin> (\<lambda>p. PricePlan.name p @ '' Rate'') ` set ps"
    "PricePlan.name p @ '' Cost'' \<notin> (\<lambda>p. PricePlan.name p @ '' Cost'') ` set ps"
    using fresh key_neq by auto
  have head: "map_of (annotations row') (PricePlan.name p @ '' Rate'') = Some (Str (PlanRate.name r))"
    "map_of (annotations row') (PricePlan.name p @ '' Cost'') = Some (Dec c)"
    using a kr key_neq by (simp_all add: r1eq update_conv')
  have tail: "\<exists>r c. fst (match_rate q row) = Inr (Some r) \<and> PlanRate_cost r row = Inr c \<and>
     map_of (annotations row') (PricePlan.name q @ '' Rate'') = Some (Str (PlanRate.name r)) \<and>
     map_of (annotations row') (PricePlan.name q @ '' Cost'') = Some (Dec c)"
    if q: "q \<in> set ps" for q
  proof -
    from Cons.IH[OF blind_ps dist rest] q obtain r' c' where
      x: "fst (match_rate q r1) = Inr (Some r')" "PlanRate_cost r' r1 = Inr c'"
      "map_of (annotations row') (PricePlan.name q @ '' Rate'') = Some (Str (PlanRate.name r'))"
      "map_of (annotations row') (PricePlan.name q @ '' Cost'') = Some (Dec c')"
      by blast
    have bq: "reads_no_annotation q" using blind_ps q by auto
    have m: "fst (match_rate q row) = Inr (Some r')"
      using x(1) blind_match_rate[OF bq, where row = row] by (simp add: r1eq)
    have "PlanRate_cost r' row = Inr c'"
      using x(2) blind_cost[OF bq match_rate_in_rates[OF m], where row = row] by (simp add: r1eq)
    with m x(3,4) show ?thesis by blast
  qed
  show ?case using r c head tail by auto
qed

lemma plans_names: "distinct (map PricePlan.name plans)"
  by (simp add: plans_def D1_def D1_2_def D1_9_def D1_8_def)

text \<open>
  C10. For every configured plan and every row the loop annotates: the rate name and
  the cost it stores under \<^verbatim>\<open>'<plan> Rate'\<close> and \<^verbatim>\<open>'<plan> Cost'\<close> are those of one tier, the
  one \<^verbatim>\<open>match_rate\<close> returns for the row; \<^verbatim>\<open>match_rate\<close> returns that tier again whatever
  annotations the row has received in between.
\<close>

theorem rate_and_cost_name_one_tier:
  "fst (annotate plans row) = Inr row' \<and> p \<in> set plans \<longrightarrow>
     (\<exists>r c. fst (match_rate p row) = Inr (Some r) \<and>
            (\<forall>a. fst (match_rate p (row\<lparr>annotations := a\<rparr>)) = Inr (Some r)) \<and>
            PlanRate_cost r row = Inr c \<and>
            map_of (annotations row') (PricePlan.name p @ '' Rate'') = Some (Str (PlanRate.name r)) \<and>
            map_of (annotations row') (PricePlan.name p @ '' Cost'') = Some (Dec c))"
proof
  assume a: "fst (annotate plans row) = Inr row' \<and> p \<in> set plans"
  then have bp: "reads_no_annotation p" using plans_blind by blast
  from annotate_consistent[OF plans_blind plans_names] a obtain r c where
    x: "fst (match_rate p row) = Inr (Some r)" "PlanRate_cost r row = Inr c"
    "map_of (annotations row') (PricePlan.name p @ '' Rate'') = Some (Str (PlanRate.name r))"
    "map_of (annotations row') (PricePlan.name p @ '' Cost'') = Some (Dec c)"
    by blast
  have "\<forall>a. fst (match_rate p (row\<lparr>annotations := a\<rparr>)) = Inr (Some r)"
    using blind_match_rate[OF bp, where row = row] x(1) by simp
  with x show "\<exists>r c. fst (match_rate p row) = Inr (Some r) \<and>
            (\<forall>a. fst (match_rate p (row\<lparr>annotations := a\<rparr>)) = Inr (Some r)) \<and>
            PlanRate_cost r row = Inr c \<and>
            map_of (annotations row') (PricePlan.name p @ '' Rate'') = Some (Str (PlanRate.name r)) \<and>
            map_of (annotations row') (PricePlan.name p @ '' Cost'') = Some (Dec c)"
    by blast
qed

theorem rate_and_cost_name_one_tier_witness:
  "\<exists>row' r c.
     fst (annotate plans
       ((csv_row 2023 7 10 1 0 (Decimal 25 (-1)))\<lparr>Daily_Cumulative := Decimal 25 (-1)\<rparr>)) = Inr row' \<and>
     D1_2 \<in> set plans \<and>
     fst (match_rate D1_2
       ((csv_row 2023 7 10 1 0 (Decimal 25 (-1)))\<lparr>Daily_Cumulative := Decimal 25 (-1)\<rparr>)) =
       Inr (Some r) \<and>
     PlanRate_cost r
       ((csv_row 2023 7 10 1 0 (Decimal 25 (-1)))\<lparr>Daily_Cumulative := Decimal 25 (-1)\<rparr>) = Inr c \<and>
     map_of (annotations row') ''D1.2 Rate'' = Some (Str (PlanRate.name r)) \<and>
     map_of (annotations row') ''D1.2 Cost'' = Some (Dec c)"
proof -
  let ?row = "(csv_row 2023 7 10 1 0 (Decimal 25 (-1)))\<lparr>Daily_Cumulative := Decimal 25 (-1)\<rparr>"
  have "\<not> isl (fst (annotate plans ?row))" by code_simp
  then obtain row' where ok: "fst (annotate plans ?row) = Inr row'"
    by (cases "fst (annotate plans ?row)") auto
  have mem: "D1_2 \<in> set plans" by (simp add: plans_def)
  have nm: "PricePlan.name D1_2 = ''D1.2''" by (simp add: D1_2_def)
  from rate_and_cost_name_one_tier[of ?row row' D1_2] ok mem obtain r c where
    "fst (match_rate D1_2 ?row) = Inr (Some r)" "PlanRate_cost r ?row = Inr c"
    "map_of (annotations row') (PricePlan.name D1_2 @ '' Rate'') = Some (Str (PlanRate.name r))"
    "map_of (annotations row') (PricePlan.name D1_2 @ '' Cost'') = Some (Dec c)"
    by blast
  with ok mem show ?thesis unfolding nm by (intro exI[of _ row'] exI[of _ r] exI[of _ c]) simp
qed

subsection \<open>The daily accumulator\<close>






end
